theory Spec2Isabelle
  imports Complex_Main "HOL-Library.Monad_Syntax"
begin

section \<open>Values: tensors, Python's None, raised errors\<close>

text \<open>
  The module \<^verbatim>\<open>pylego/ops.py\<close> is written against a tensor engine. A tensor is modelled
  as the engine stores it: a shape and the elements in row-major order. Scalars are
  real numbers, an idealisation of the engine's floating-point numbers (rounding,
  infinities and NaN are not modelled).

  A value that may be Python's \<^verbatim>\<open>None\<close> has type \<open>'a optional\<close>. A computation that may
  raise has type \<open>'a option\<close>: \<open>None\<close> means that an exception leaves the function (the
  engine's shape error, or Python's IndexError and TypeError), \<open>Some v\<close> that it
  returns \<open>v\<close>.
\<close>

type_synonym vec = "real list"

datatype tensor = Tensor (shape: "nat list") (elems: vec)

datatype 'a optional = Absent | Present 'a

definition wf_tensor :: "tensor \<Rightarrow> bool" where
  "wf_tensor t \<longleftrightarrow> length (elems t) = prod_list (shape t)"

text \<open>The \<open>k\<close>-th block of \<open>n\<close> consecutive elements of a row-major list.\<close>

definition chunk :: "nat \<Rightarrow> nat \<Rightarrow> 'a list \<Rightarrow> 'a list" where
  "chunk n k xs = take n (drop (k * n) xs)"

text \<open>Python's \<^verbatim>\<open>xs[i]\<close> for a list and an index that is not negative.\<close>

definition getitem :: "'a list \<Rightarrow> nat \<Rightarrow> 'a option" where
  "getitem xs i = (if i < length xs then Some (xs ! i) else None)"

text \<open>
  A \<^verbatim>\<open>for\<close> loop over a list: the body maps the loop variable and the state before
  the iteration to the state after it; an exception in the body ends the loop.
\<close>

fun for_each :: "('a \<Rightarrow> 's \<Rightarrow> 's option) \<Rightarrow> 'a list \<Rightarrow> 's \<Rightarrow> 's option" where
  "for_each body [] s = Some s"
| "for_each body (x # xs) s =
     (case body x s of None \<Rightarrow> None | Some s' \<Rightarrow> for_each body xs s')"

section \<open>The operations of the tensor engine that the module calls\<close>

text \<open>
  These follow the engine's documented semantics on the ranks the module uses.
  \<^verbatim>\<open>t.size(d)\<close>:
\<close>

definition tensor_size :: "tensor \<Rightarrow> nat \<Rightarrow> nat option" where
  "tensor_size t d = getitem (shape t) d"

text \<open>\<^verbatim>\<open>t.new_zeros(sh)\<close>:\<close>

definition new_zeros :: "nat list \<Rightarrow> tensor" where
  "new_zeros sh = Tensor sh (replicate (prod_list sh) 0)"

text \<open>
  \<^verbatim>\<open>t.select(d, i)\<close>, the tensor \<^verbatim>\<open>t[:, i]\<close> when \<open>d = 1\<close>: dimension \<open>d\<close> is removed,
  index \<open>i\<close> of it is kept.
\<close>

definition select :: "tensor \<Rightarrow> nat \<Rightarrow> nat \<Rightarrow> tensor option" where
  "select t d i =
     (if d < length (shape t) \<and> i < shape t ! d then
        Some (Tensor (take d (shape t) @ drop (Suc d) (shape t))
               (concat (map (\<lambda>k. chunk (prod_list (drop (Suc d) (shape t)))
                                     (k * (shape t ! d) + i) (elems t))
                            [0..<prod_list (take d (shape t))])))
      else None)"

text \<open>\<^verbatim>\<open>t.unsqueeze(d)\<close>, what an index \<^verbatim>\<open>None\<close> at position \<open>d\<close> does: a new dimension of size 1.\<close>

definition unsqueeze :: "tensor \<Rightarrow> nat \<Rightarrow> tensor option" where
  "unsqueeze t d =
     (if d \<le> length (shape t) then Some (Tensor (take d (shape t) @ 1 # drop d (shape t)) (elems t))
      else None)"

text \<open>
  \<^verbatim>\<open>torch.cat(ts, dim=d)\<close>: the list is not empty, the tensors have the same shape apart
  from dimension \<open>d\<close>; the result interleaves their blocks.
\<close>

definition cat :: "tensor list \<Rightarrow> nat \<Rightarrow> tensor option" where
  "cat ts d =
     (case ts of
        [] \<Rightarrow> None
      | t0 # _ \<Rightarrow>
          if d < length (shape t0) \<and>
             list_all (\<lambda>t. length (shape t) = length (shape t0) \<and>
                            take d (shape t) = take d (shape t0) \<and>
                            drop (Suc d) (shape t) = drop (Suc d) (shape t0)) ts
          then Some (Tensor (take d (shape t0) @ sum_list (map (\<lambda>t. shape t ! d) ts) # drop (Suc d) (shape t0))
                      (concat (map (\<lambda>k. concat (map (\<lambda>t. chunk (prod_list (drop d (shape t))) k (elems t)) ts))
                                   [0..<prod_list (take d (shape t0))])))
          else None)"

text \<open>\<^verbatim>\<open>torch.any(t > c)\<close> and \<^verbatim>\<open>c - t\<close> for a number \<open>c\<close>:\<close>

definition any_gt :: "tensor \<Rightarrow> real \<Rightarrow> bool" where
  "any_gt t c = list_ex (\<lambda>x. c < x) (elems t)"

definition rsub :: "real \<Rightarrow> tensor \<Rightarrow> tensor" where
  "rsub c t = Tensor (shape t) (map (\<lambda>x. c - x) (elems t))"

text \<open>
  \<^verbatim>\<open>x * y\<close> with broadcasting, for two tensors of rank 2 (the only ranks that reach the
  product in this module; other ranks are reported as raising): a dimension of size 1
  is repeated to the size of the other operand.
\<close>

definition bdim :: "nat \<Rightarrow> nat \<Rightarrow> nat option" where
  "bdim a b = (if a = b then Some a else if a = 1 then Some b else if b = 1 then Some a else None)"

definition at2 :: "tensor \<Rightarrow> nat \<Rightarrow> nat \<Rightarrow> real" where
  "at2 t i j = elems t ! ((if shape t ! 0 = 1 then 0 else i) * (shape t ! 1) +
                          (if shape t ! 1 = 1 then 0 else j))"

definition mul :: "tensor \<Rightarrow> tensor \<Rightarrow> tensor option" where
  "mul x y =
     (case (shape x, shape y) of
        ([a, b], [c, d]) \<Rightarrow>
          do {
            m \<leftarrow> bdim a c;
            n \<leftarrow> bdim b d;
            Some (Tensor [m, n] (concat (map (\<lambda>i. map (\<lambda>j. at2 x i j * at2 y i j) [0..<n]) [0..<m])))
          }
      | _ \<Rightarrow> None)"

text \<open>Row \<open>b\<close> of a tensor of rank 2: the elements of batch element \<open>b\<close>.\<close>

definition row :: "tensor \<Rightarrow> nat \<Rightarrow> vec" where
  "row t b = chunk (shape t ! 1) b (elems t)"

section \<open>The recurrent unit of the engine\<close>

text \<open>
  \<^verbatim>\<open>nn.LSTMCell(input_size, hidden_size, bias)\<close> belongs to the engine, not to this
  module. Its gate arithmetic with its learned weights is a parameter, \<open>cell_gate\<close>: it
  maps one batch element's input vector and (hidden, cell) vectors to the new (hidden,
  cell) vectors. What the module relies on is modelled: the unit takes a
  \<open>[batch, input_size]\<close> input and an optional pair of \<open>[batch, hidden_size]\<close> tensors,
  zeros when the pair is \<^verbatim>\<open>None\<close>, raises on any other shape, and treats every batch
  element on its own.
\<close>

record lstm_cell =
  cell_input_size :: nat
  cell_hidden_size :: nat
  cell_bias :: bool
  cell_gate :: "vec \<Rightarrow> vec \<times> vec \<Rightarrow> vec \<times> vec"

definition LSTMCell_forward ::
  "lstm_cell \<Rightarrow> tensor \<Rightarrow> (tensor \<times> tensor) optional \<Rightarrow> (tensor \<times> tensor) option" where
  "LSTMCell_forward cell x hx =
     (case shape x of
        [B, W] \<Rightarrow>
          if W \<noteq> cell_input_size cell then None
          else do {
            (h, c) \<leftarrow> (case hx of
                 Absent \<Rightarrow> Some (new_zeros [B, cell_hidden_size cell], new_zeros [B, cell_hidden_size cell])
               | Present (h, c) \<Rightarrow>
                   if shape h = [B, cell_hidden_size cell] \<and> shape c = [B, cell_hidden_size cell]
                   then Some (h, c) else None);
            let outs = map (\<lambda>b. cell_gate cell (row x b) (row h b, row c b)) [0..<B];
            Some (Tensor [B, cell_hidden_size cell] (concat (map fst outs)),
                  Tensor [B, cell_hidden_size cell] (concat (map snd outs)))
          }
      | _ \<Rightarrow> None)"

text \<open>The unit returns vectors of its hidden size: the assumption on the parameter.\<close>

definition gate_ok :: "lstm_cell \<Rightarrow> bool" where
  "gate_ok cell \<longleftrightarrow>
     (\<forall>x h c. length x = cell_input_size cell \<longrightarrow> length h = cell_hidden_size cell \<longrightarrow>
        length c = cell_hidden_size cell \<longrightarrow>
        length (fst (cell_gate cell x (h, c))) = cell_hidden_size cell \<and>
        length (snd (cell_gate cell x (h, c))) = cell_hidden_size cell)"

section \<open>MultilayerLSTMCell\<close>

record multilayer_lstm_cell =
  hidden_size :: nat
  layers :: nat
  every_layer_input :: bool
  use_previous_higher :: bool
  lstm_cells :: "lstm_cell list"

text \<open>
  The widths computed by \<^verbatim>\<open>__init__\<close> (lines 217 to 223): a list built for layer 0 and
  the layers above it, then updated in place by the two loops.
\<close>

definition input_sizes :: "nat \<Rightarrow> nat \<Rightarrow> nat \<Rightarrow> bool \<Rightarrow> bool \<Rightarrow> nat list" where
  "input_sizes input_size hidden layers_n every_layer_inp use_prev_higher =
     (let s0 = input_size # map (\<lambda>_. hidden) [1..<layers_n];
          s1 = (if every_layer_inp
                then fold (\<lambda>i s. s[i := s ! i + input_size]) [1..<layers_n] s0 else s0);
          s2 = (if use_prev_higher
                then fold (\<lambda>i s. s[i := s ! i + hidden]) [0..<layers_n - 1] s1 else s1)
      in s2)"

text \<open>
  \<^verbatim>\<open>__init__\<close>: \<open>params i\<close> stands for the weights the engine gives the unit of layer \<open>i\<close>.
\<close>

definition MultilayerLSTMCell_init ::
  "(nat \<Rightarrow> vec \<Rightarrow> vec \<times> vec \<Rightarrow> vec \<times> vec) \<Rightarrow> nat \<Rightarrow> nat \<Rightarrow> bool \<Rightarrow> nat \<Rightarrow> bool \<Rightarrow> bool
     \<Rightarrow> multilayer_lstm_cell" where
  "MultilayerLSTMCell_init params input_size hidden bias layers_n every_layer_inp use_prev_higher =
     \<lparr> hidden_size = hidden,
       layers = layers_n,
       every_layer_input = every_layer_inp,
       use_previous_higher = use_prev_higher,
       lstm_cells = map (\<lambda>i. \<lparr> cell_input_size =
                                   input_sizes input_size hidden layers_n every_layer_inp use_prev_higher ! i,
                                 cell_hidden_size = hidden,
                                 cell_bias = bias,
                                 cell_gate = params i \<rparr>) [0..<layers_n] \<rparr>"

type_synonym layer_state = "(tensor \<times> tensor) optional"

text \<open>
  The input of one layer's unit (lines 236 to 243), from the running signal \<open>recent\<close>,
  the raw input and the previous stack.
\<close>

definition layer_input ::
  "multilayer_lstm_cell \<Rightarrow> tensor \<Rightarrow> layer_state list \<Rightarrow> nat \<Rightarrow> tensor \<Rightarrow> tensor option" where
  "layer_input self inp hx layer recent =
     do {
       recent \<leftarrow> (if 0 < layer \<and> every_layer_input self then cat [recent, inp] 1
                   else Some recent);
       if int layer < int (layers self) - 1 \<and> use_previous_higher self then
         do {
           above \<leftarrow> getitem hx (layer + 1);
           prev \<leftarrow> (case above of
                Absent \<Rightarrow> do { n \<leftarrow> tensor_size recent 0; Some (new_zeros [n, hidden_size self]) }
              | Present (h, c) \<Rightarrow> Some h);
           cat [recent, prev] 1
         }
       else Some recent
     }"

text \<open>One iteration of the loop over the layers (lines 236 to 246).\<close>

definition cell_body ::
  "multilayer_lstm_cell \<Rightarrow> tensor \<Rightarrow> layer_state list \<Rightarrow> nat
     \<Rightarrow> tensor \<times> layer_state list \<Rightarrow> (tensor \<times> layer_state list) option" where
  "cell_body self inp hx layer s =
     (case s of (recent, outputs) \<Rightarrow>
        do {
          recent \<leftarrow> layer_input self inp hx layer recent;
          unit \<leftarrow> getitem (lstm_cells self) layer;
          own \<leftarrow> getitem hx layer;
          out \<leftarrow> LSTMCell_forward unit recent own;
          Some (fst out, outputs @ [Present out])
        })"

text \<open>\<^verbatim>\<open>MultilayerLSTMCell.forward\<close> (lines 226 to 247).\<close>

definition MultilayerLSTMCell_forward ::
  "multilayer_lstm_cell \<Rightarrow> tensor \<Rightarrow> layer_state list optional \<Rightarrow> layer_state list option" where
  "MultilayerLSTMCell_forward self inp hx =
     (let hx = (case hx of Absent \<Rightarrow> replicate (layers self) Absent | Present l \<Rightarrow> l) in
      do {
        (recent, outputs) \<leftarrow> for_each (cell_body self inp hx) [0..<layers self] (inp, []);
        Some outputs
      })"

section \<open>MultilayerLSTM\<close>

record multilayer_lstm =
  cell :: multilayer_lstm_cell

definition MultilayerLSTM_init ::
  "(nat \<Rightarrow> vec \<Rightarrow> vec \<times> vec \<Rightarrow> vec \<times> vec) \<Rightarrow> nat \<Rightarrow> nat \<Rightarrow> bool \<Rightarrow> nat \<Rightarrow> bool \<Rightarrow> bool
     \<Rightarrow> multilayer_lstm" where
  "MultilayerLSTM_init params input_size hidden bias layers_n every_layer_inp use_prev_higher =
     \<lparr> cell = MultilayerLSTMCell_init params input_size hidden bias layers_n
                every_layer_inp use_prev_higher \<rparr>"

text \<open>
  Line 266, \<^verbatim>\<open>torch.cat([h[:, None, None, :] for (h, c) in hx], dim=2)\<close>: unpacking an entry
  that is \<^verbatim>\<open>None\<close> raises, and so does the index on a tensor of rank below 2.
\<close>

definition hidden_view :: "layer_state \<Rightarrow> tensor option" where
  "hidden_view e =
     (case e of
        Absent \<Rightarrow> None
      | Present (h, c) \<Rightarrow>
          if 2 \<le> length (shape h) then do { u \<leftarrow> unsqueeze h 1; unsqueeze u 1 } else None)"

definition step_output :: "layer_state list \<Rightarrow> tensor option" where
  "step_output hx = do { hs \<leftarrow> those (map hidden_view hx); cat hs 2 }"

text \<open>
  Lines 267 to 271. The loop assigns \<^verbatim>\<open>hx[i]\<close> while it enumerates \<^verbatim>\<open>hx\<close>; an entry is
  read before it is assigned, so it enumerates the entries as they were.
\<close>

definition reset_entry ::
  "tensor \<Rightarrow> nat \<times> layer_state \<Rightarrow> layer_state list \<Rightarrow> layer_state list option" where
  "reset_entry reset_t ie hx =
     (case ie of
        (i, Absent) \<Rightarrow> None
      | (i, Present (h, c)) \<Rightarrow>
          do {
            h' \<leftarrow> mul h (rsub 1 reset_t);
            c' \<leftarrow> mul c (rsub 1 reset_t);
            Some (hx[i := Present (h', c')])
          })"

definition apply_reset :: "tensor optional \<Rightarrow> nat \<Rightarrow> layer_state list \<Rightarrow> layer_state list option" where
  "apply_reset reset t hx =
     (case reset of
        Absent \<Rightarrow> Some hx
      | Present r \<Rightarrow>
          do {
            s \<leftarrow> select r 1 t;
            reset_t \<leftarrow> unsqueeze s 1;
            if any_gt reset_t (1 / 10 ^ 6) then for_each (reset_entry reset_t) (enumerate 0 hx) hx
            else Some hx
          })"

text \<open>One iteration of the loop over the timesteps (lines 265 to 271).\<close>

definition forward_body ::
  "multilayer_lstm \<Rightarrow> tensor \<Rightarrow> tensor optional \<Rightarrow> nat
     \<Rightarrow> layer_state list optional \<times> tensor list \<Rightarrow> (layer_state list optional \<times> tensor list) option" where
  "forward_body self inp reset t s =
     (case s of (hx, outputs) \<Rightarrow>
        do {
          x \<leftarrow> select inp 1 t;
          hx \<leftarrow> MultilayerLSTMCell_forward (cell self) x hx;
          out \<leftarrow> step_output hx;
          hx \<leftarrow> apply_reset reset t hx;
          Some (Present hx, outputs @ [out])
        })"

text \<open>\<^verbatim>\<open>MultilayerLSTM.forward\<close> (lines 259 to 273).\<close>

definition MultilayerLSTM_forward :: "multilayer_lstm \<Rightarrow> tensor \<Rightarrow> tensor optional \<Rightarrow> tensor option" where
  "MultilayerLSTM_forward self inp reset =
     do {
       n \<leftarrow> tensor_size inp 1;
       (hx, outputs) \<leftarrow> for_each (forward_body self inp reset) [0..<n] (Absent, []);
       cat outputs 1
     }"

definition has_shape :: "tensor \<Rightarrow> nat list \<Rightarrow> bool" where
  "has_shape t sh \<longleftrightarrow> shape t = sh \<and> wf_tensor t"

text \<open>the state the unit starts from\<close>
definition unit_state :: "nat \<Rightarrow> nat \<Rightarrow> layer_state \<Rightarrow> tensor \<times> tensor" where
  "unit_state B H hx = (case hx of Absent \<Rightarrow> (new_zeros [B, H], new_zeros [B, H]) | Present hc \<Rightarrow> hc)"

definition state_ok :: "nat \<Rightarrow> nat \<Rightarrow> layer_state \<Rightarrow> bool" where
  "state_ok B H e \<longleftrightarrow> (case e of Absent \<Rightarrow> True | Present (h, c) \<Rightarrow> has_shape h [B, H] \<and> has_shape c [B, H])"

definition unit_width :: "multilayer_lstm_cell \<Rightarrow> nat \<Rightarrow> nat \<Rightarrow> nat" where
  "unit_width self I l =
     (if l = 0 then I else hidden_size self + (if every_layer_input self then I else 0)) +
     (if use_previous_higher self \<and> Suc l < layers self then hidden_size self else 0)"

definition valid_cell :: "multilayer_lstm_cell \<Rightarrow> nat \<Rightarrow> bool" where
  "valid_cell self I \<longleftrightarrow>
     0 < layers self \<and> length (lstm_cells self) = layers self \<and>
     (\<forall>l<layers self. cell_input_size (lstm_cells self ! l) = unit_width self I l \<and>
        cell_hidden_size (lstm_cells self ! l) = hidden_size self \<and> gate_ok (lstm_cells self ! l))"

definition stack_ok :: "multilayer_lstm_cell \<Rightarrow> nat \<Rightarrow> layer_state list \<Rightarrow> bool" where
  "stack_ok self B hx \<longleftrightarrow>
     length hx = layers self \<and> (\<forall>j<layers self. state_ok B (hidden_size self) (hx ! j))"

definition rows_eq :: "nat \<Rightarrow> nat \<Rightarrow> tensor \<Rightarrow> tensor \<Rightarrow> bool" where
  "rows_eq B k t1 t2 \<longleftrightarrow> (k < B \<longrightarrow> row t1 k = row t2 k)"

definition entry_rel :: "nat \<Rightarrow> nat \<Rightarrow> layer_state \<Rightarrow> layer_state \<Rightarrow> bool" where
  "entry_rel B k e1 e2 \<longleftrightarrow>
     (case e1 of
        Absent \<Rightarrow> e2 = Absent
      | Present (h1, c1) \<Rightarrow>
          (case e2 of Absent \<Rightarrow> False | Present (h2, c2) \<Rightarrow> rows_eq B k h1 h2 \<and> rows_eq B k c1 c2))"

definition present_ok :: "nat \<Rightarrow> nat \<Rightarrow> layer_state \<Rightarrow> bool" where
  "present_ok B H e \<longleftrightarrow> (\<exists>h c. e = Present (h, c) \<and> has_shape h [B, H] \<and> has_shape c [B, H])"

definition outs_ok :: "multilayer_lstm_cell \<Rightarrow> nat \<Rightarrow> layer_state list \<Rightarrow> bool" where
  "outs_ok self B os \<longleftrightarrow> length os = layers self \<and> (\<forall>j<layers self. present_ok B (hidden_size self) (os ! j))"

definition cell_inv ::
  "multilayer_lstm_cell \<Rightarrow> nat \<Rightarrow> nat \<Rightarrow> nat \<Rightarrow> nat \<Rightarrow> tensor \<times> layer_state list \<Rightarrow> tensor \<times> layer_state list \<Rightarrow> bool" where
  "cell_inv self B I k l s1 s2 \<longleftrightarrow>
     length (snd s1) = l \<and> length (snd s2) = l \<and>
     (\<forall>j<l. present_ok B (hidden_size self) (snd s1 ! j) \<and> present_ok B (hidden_size self) (snd s2 ! j) \<and>
            entry_rel B k (snd s1 ! j) (snd s2 ! j)) \<and>
     has_shape (fst s1) [B, if l = 0 then I else hidden_size self] \<and>
     has_shape (fst s2) [B, if l = 0 then I else hidden_size self] \<and>
     rows_eq B k (fst s1) (fst s2)"

definition entry2 :: "tensor \<Rightarrow> nat \<Rightarrow> nat \<Rightarrow> real" where
  "entry2 t i j = elems t ! (i * (shape t ! 1) + j)"

definition scale_state :: "tensor \<Rightarrow> layer_state \<Rightarrow> layer_state option" where
  "scale_state m e =
     (case e of
        Absent \<Rightarrow> None
      | Present (h, c) \<Rightarrow> do { h' \<leftarrow> mul h m; c' \<leftarrow> mul c m; Some (Present (h', c')) })"

definition carried_rel ::
  "multilayer_lstm_cell \<Rightarrow> nat \<Rightarrow> nat \<Rightarrow> layer_state list optional \<Rightarrow> layer_state list optional \<Rightarrow> bool" where
  "carried_rel self B k st1 st2 \<longleftrightarrow>
     (case st1 of
        Absent \<Rightarrow> st2 = Absent
      | Present hx1 \<Rightarrow>
          (case st2 of
             Absent \<Rightarrow> False
           | Present hx2 \<Rightarrow> stack_ok self B hx1 \<and> stack_ok self B hx2 \<and>
               (\<forall>j<layers self. entry_rel B k (hx1 ! j) (hx2 ! j))))"

definition reset_rel :: "nat \<Rightarrow> nat \<Rightarrow> nat \<Rightarrow> nat \<Rightarrow> tensor optional \<Rightarrow> tensor optional \<Rightarrow> bool" where
  "reset_rel B L k t reset1 reset2 \<longleftrightarrow>
     (case reset1 of
        Absent \<Rightarrow> reset2 = Absent
      | Present r1 \<Rightarrow>
          (case reset2 of
             Absent \<Rightarrow> False
           | Present r2 \<Rightarrow> has_shape r1 [B, L] \<and> has_shape r2 [B, L] \<and>
               (k < B \<longrightarrow> entry2 r1 k t = entry2 r2 k t \<and>
                  (entry2 r1 k t = 0 \<or> 1 / 10 ^ 6 < entry2 r1 k t))))"

definition forward_steps ::
  "multilayer_lstm \<Rightarrow> tensor \<Rightarrow> tensor optional \<Rightarrow> nat \<Rightarrow> (layer_state list optional \<times> tensor list) option" where
  "forward_steps self inp reset n = for_each (forward_body self inp reset) [0..<n] (Absent, [])"

definition batch_elem :: "tensor \<Rightarrow> nat \<Rightarrow> vec" where
  "batch_elem t b = chunk (prod_list (tl (shape t))) b (elems t)"

definition drv_inv ::
  "multilayer_lstm \<Rightarrow> nat \<Rightarrow> nat \<Rightarrow> nat
     \<Rightarrow> layer_state list optional \<times> tensor list \<Rightarrow> layer_state list optional \<times> tensor list \<Rightarrow> bool" where
  "drv_inv self B k t s1 s2 \<longleftrightarrow>
     length (snd s1) = t \<and> length (snd s2) = t \<and>
     (\<forall>j<t. has_shape (snd s1 ! j) [B, 1, layers (cell self), hidden_size (cell self)] \<and>
            has_shape (snd s2 ! j) [B, 1, layers (cell self), hidden_size (cell self)] \<and>
            (k < B \<longrightarrow> batch_elem (snd s1 ! j) k = batch_elem (snd s2 ! j) k)) \<and>
     carried_rel (cell self) B k (fst s1) (fst s2) \<and>
     (0 < t \<longrightarrow> (\<exists>hx1 hx2. fst s1 = Present hx1 \<and> fst s2 = Present hx2 \<and>
                    outs_ok (cell self) B hx1 \<and> outs_ok (cell self) B hx2))"

definition reset_ok :: "nat \<Rightarrow> nat \<Rightarrow> tensor optional \<Rightarrow> bool" where
  "reset_ok B L reset \<longleftrightarrow> (case reset of Absent \<Rightarrow> True | Present r \<Rightarrow> has_shape r [B, L])"

definition carried_ok :: "multilayer_lstm_cell \<Rightarrow> nat \<Rightarrow> layer_state list optional \<Rightarrow> bool" where
  "carried_ok self B st \<longleftrightarrow> (case st of Absent \<Rightarrow> True | Present hx \<Rightarrow> stack_ok self B hx)"

text \<open>What one iteration of the driver's loop does, named step by step.\<close>

definition step_at ::
  "multilayer_lstm \<Rightarrow> tensor \<Rightarrow> tensor optional \<Rightarrow> nat \<Rightarrow> layer_state list optional \<Rightarrow> tensor list
     \<Rightarrow> tensor \<Rightarrow> layer_state list \<Rightarrow> tensor \<Rightarrow> layer_state list \<Rightarrow> bool" where
  "step_at self inp reset t st os x hx out carried \<longleftrightarrow>
     forward_steps self inp reset t = Some (st, os) \<and>
     select inp 1 t = Some x \<and>
     MultilayerLSTMCell_forward (cell self) x st = Some hx \<and>
     step_output hx = Some out \<and>
     apply_reset reset t hx = Some carried \<and>
     forward_steps self inp reset (Suc t) = Some (Present carried, os @ [out])"

text \<open>What one iteration of the cell's loop over the layers does, named step by step.\<close>

definition layer_at ::
  "multilayer_lstm_cell \<Rightarrow> tensor \<Rightarrow> layer_state list \<Rightarrow> nat \<Rightarrow> tensor \<Rightarrow> layer_state list
     \<Rightarrow> tensor \<Rightarrow> tensor \<Rightarrow> tensor \<Rightarrow> bool" where
  "layer_at self inp hx l recent outs r h c \<longleftrightarrow>
     for_each (cell_body self inp hx) [0..<l] (inp, []) = Some (recent, outs) \<and>
     layer_input self inp hx l recent = Some r \<and>
     getitem (lstm_cells self) l \<bind> (\<lambda>unit. LSTMCell_forward unit r (hx ! l)) = Some (h, c) \<and>
     for_each (cell_body self inp hx) [0..<Suc l] (inp, []) = Some (h, outs @ [Present (h, c)])"

text \<open>
  The part of a carried stack that belongs to batch element \<open>b\<close>: for every layer, row \<open>b\<close> of the
  hidden and of the cell tensor.
\<close>

definition elem_state :: "layer_state list optional \<Rightarrow> nat \<Rightarrow> (vec \<times> vec) optional list optional" where
  "elem_state st b =
     (case st of
        Absent \<Rightarrow> Absent
      | Present hx \<Rightarrow>
          Present (map (\<lambda>e. case e of Absent \<Rightarrow> Absent | Present (h, c) \<Rightarrow> Present (row h b, row c b)) hx))"

text \<open>
  The reference for the one-layer case, written from the specification: a single standard LSTM
  cell stepped over the sequence. It starts without a state, at every timestep feeds the unit
  the input of that timestep and the (h, c) pair of the timestep before, and emits the unit's
  hidden output.
\<close>

definition single_cell_body ::
  "lstm_cell \<Rightarrow> tensor \<Rightarrow> nat \<Rightarrow> layer_state \<times> tensor list \<Rightarrow> (layer_state \<times> tensor list) option" where
  "single_cell_body unit inp t s =
     (case s of (hc, hs) \<Rightarrow>
        do {
          x \<leftarrow> select inp 1 t;
          out \<leftarrow> LSTMCell_forward unit x hc;
          Some (Present out, hs @ [fst out])
        })"

definition single_cell_steps :: "lstm_cell \<Rightarrow> tensor \<Rightarrow> nat \<Rightarrow> (layer_state \<times> tensor list) option" where
  "single_cell_steps unit inp n = for_each (single_cell_body unit inp) [0..<n] (Absent, [])"

definition single_cell_run :: "lstm_cell \<Rightarrow> tensor \<Rightarrow> tensor list option" where
  "single_cell_run unit inp =
     do {
       n \<leftarrow> tensor_size inp 1;
       s \<leftarrow> single_cell_steps unit inp n;
       Some (snd s)
     }"

text \<open>The (h, c) pair that a one-layer stack carries.\<close>

definition carried_pair :: "layer_state list optional \<Rightarrow> layer_state" where
  "carried_pair st = (case st of Absent \<Rightarrow> Absent | Present hx \<Rightarrow> hx ! 0)"

section \<open>A small instance for the examples\<close>

text \<open>
  A unit whose arithmetic can be evaluated: the new cell vector adds the sum of the
  input to the old one, the new hidden vector adds twice the new cell vector to the old
  hidden vector. It returns vectors as long as the ones it is given.
\<close>

definition demo_gate :: "vec \<Rightarrow> vec \<times> vec \<Rightarrow> vec \<times> vec" where
  "demo_gate x hc =
     (let c' = map (\<lambda>v. v + sum_list x) (snd hc) in (map2 (\<lambda>a b. a + 2 * b) (fst hc) c', c'))"

section \<open>Widths of the units at construction\<close>

lemma fold_add_length:
  "length (fold (\<lambda>i s. s[i := s ! i + (k::nat)]) xs s) = length s"
  by (induction xs arbitrary: s) auto

lemma fold_add_nth:
  "b \<le> length s \<Longrightarrow>
   fold (\<lambda>i s. s[i := s ! i + k]) [a..<b] s ! j = (if a \<le> j \<and> j < b then s ! j + (k::nat) else s ! j)"
proof (induction b)
  case 0
  then show ?case by simp
next
  case (Suc b)
  then show ?case
    by (cases "a \<le> b") (auto simp: nth_list_update less_Suc_eq fold_add_length)
qed

lemma input_sizes_length:
  "length (input_sizes input_size hidden layers_n eli uph) = max 1 layers_n"
  by (auto simp: input_sizes_def Let_def fold_add_length)

lemma input_sizes_nth:
  assumes "l < layers_n"
  shows "input_sizes input_size hidden layers_n eli uph ! l =
     (if l = 0 then input_size else hidden + (if eli then input_size else 0)) +
     (if uph \<and> Suc l < layers_n then hidden else 0)"
  using assms
  by (auto simp: input_sizes_def Let_def fold_add_nth fold_add_length nth_Cons')

text \<open>
  C4, as the claim states it, fails for layer 0: with \<^verbatim>\<open>use_previous_higher\<close> and two layers
  the second loop of \<^verbatim>\<open>__init__\<close> adds the hidden size to the width of layer 0 as well, so
  with input size 3 and hidden size 4 the unit of layer 0 is 7 wide, not 3.
\<close>

theorem layer0_width_counterexample:
  "cell_input_size (lstm_cells (MultilayerLSTMCell_init (\<lambda>i. demo_gate) 3 4 True 2 False True) ! 0) \<noteq> 3"
  by (simp add: MultilayerLSTMCell_init_def input_sizes_def)

text \<open>
  C4, amended: the unit of layer \<open>l\<close> is built with input width \<^verbatim>\<open>input_size\<close> for layer 0
  and \<^verbatim>\<open>hidden_size\<close> (plus \<^verbatim>\<open>input_size\<close> when \<^verbatim>\<open>every_layer_input\<close> is set) for the layers
  above it, plus \<^verbatim>\<open>hidden_size\<close> again when \<^verbatim>\<open>use_previous_higher\<close> is set and the layer is
  not the topmost one; this last term applies to layer 0 too.
\<close>

theorem init_unit_input_width:
  assumes "l < layers_n"
  shows "cell_input_size
           (lstm_cells (MultilayerLSTMCell_init params input_size hidden bias layers_n eli uph) ! l) =
         (if l = 0 then input_size else hidden + (if eli then input_size else 0)) +
         (if uph \<and> l + 1 < layers_n then hidden else 0)"
  using assms by (simp add: MultilayerLSTMCell_init_def input_sizes_nth)

theorem init_unit_input_width_witness:
  "(1::nat) < 3 \<and>
   cell_input_size (lstm_cells (MultilayerLSTMCell_init (\<lambda>i. demo_gate) 3 4 True 3 True True) ! 1) = 11"
  using init_unit_input_width [of 1 3 "\<lambda>i. demo_gate" 3 4 True True True] by simp

lemma concat_upt_Suc:
  "concat (map f [0..<Suc n]) = concat (map f [0..<n]) @ f n"
  by simp

lemma length_concat_uniform:
  "(\<And>i. i < n \<Longrightarrow> length (f i) = m) \<Longrightarrow> length (concat (map f [0..<n])) = n * m"
  by (induction n) auto

lemma chunk_concat_uniform:
  assumes "\<And>i. i < n \<Longrightarrow> length (f i) = m" and "k < n"
  shows "chunk m k (concat (map f [0..<n])) = f k"
  using assms
proof (induction n)
  case 0
  then show ?case by simp
next
  case (Suc n)
  have len: "length (concat (map f [0..<n])) = n * m"
    using Suc.prems(1) by (intro length_concat_uniform) simp
  show ?case
  proof (cases "k < n")
    case True
    then have "Suc k \<le> n" by simp
    then have "Suc k * m \<le> n * m" by (rule mult_le_mono1)
    then have "m \<le> n * m - k * m" by simp
    with Suc.IH [OF Suc.prems(1) True] len show ?thesis
      by (simp add: chunk_def)
  next
    case False
    with Suc.prems(2) have "k = n" by simp
    with len Suc.prems(1) [of n] show ?thesis
      by (simp add: chunk_def)
  qed
qed

lemma length_chunk:
  "Suc k * n \<le> length xs \<Longrightarrow> length (chunk n k xs) = n"
  by (simp add: chunk_def)

lemma chunk_chunk:
  assumes "t < L"
  shows "chunk n t (chunk (L * n) b xs) = chunk n (b * L + t) xs"
proof -
  from assms have "Suc t \<le> L" by simp
  then have "Suc t * n \<le> L * n" by (rule mult_le_mono1)
  then have le: "n \<le> L * n - t * n" by simp
  have "chunk n t (chunk (L * n) b xs) = take n (take (L * n - t * n) (drop (t * n) (drop (b * (L * n)) xs)))"
    by (simp only: chunk_def drop_take)
  also have "\<dots> = take n (drop (t * n + b * (L * n)) xs)"
    using le by (simp only: take_take min_absorb1 drop_drop)
  also have "t * n + b * (L * n) = (b * L + t) * n"
    by (simp add: algebra_simps)
  finally show ?thesis
    by (simp only: chunk_def)
qed

lemma concat_chunks:
  "length xs = n * m \<Longrightarrow> concat (map (\<lambda>k. chunk m k xs) [0..<n]) = xs"
proof (induction n arbitrary: xs rule: nat.induct)
  case zero
  then show ?case by simp
next
  case (Suc n)
  have "concat (map (\<lambda>k. chunk m k xs) [0..<n]) = concat (map (\<lambda>k. chunk m k (take (n * m) xs)) [0..<n])"
  proof (rule arg_cong [where f = concat], rule map_cong [OF refl])
    fix k assume "k \<in> set [0..<n]"
    then have "Suc k \<le> n" by simp
    then have "Suc k * m \<le> n * m" by (rule mult_le_mono1)
    then have "m \<le> n * m - k * m" by simp
    then show "chunk m k xs = chunk m k (take (n * m) xs)"
      by (simp add: chunk_def drop_take min_def)
  qed
  also have "\<dots> = take (n * m) xs"
    using Suc.prems by (intro Suc.IH) simp
  finally show ?case
    using Suc.prems by (simp add: chunk_def)
qed

lemma nth_chunk:
  "j < n \<Longrightarrow> Suc k * n \<le> length xs \<Longrightarrow> chunk n k xs ! j = xs ! (k * n + j)"
  by (simp add: chunk_def)

lemma has_shapeD: "has_shape t sh \<Longrightarrow> shape t = sh" "has_shape t sh \<Longrightarrow> length (elems t) = prod_list sh"
  by (auto simp: has_shape_def wf_tensor_def)

lemma length_elems2: "has_shape t [B, W] \<Longrightarrow> length (elems t) = B * W"
  by (simp add: has_shape_def wf_tensor_def)

lemma length_row:
  assumes "has_shape t [B, W]" "k < B"
  shows "length (row t k) = W"
proof -
  from assms(2) have "Suc k \<le> B" by simp
  then have "Suc k * W \<le> B * W" by (rule mult_le_mono1)
  with assms(1) show ?thesis
    by (simp add: row_def has_shapeD length_chunk length_elems2)
qed

lemma rows_tensor:
  assumes "\<And>i. i < B \<Longrightarrow> length (f i) = W"
  shows "has_shape (Tensor [B, W] (concat (map f [0..<B]))) [B, W]"
    and "k < B \<Longrightarrow> row (Tensor [B, W] (concat (map f [0..<B]))) k = f k"
  using assms
  by (simp_all add: has_shape_def wf_tensor_def length_concat_uniform row_def chunk_concat_uniform)

lemma tensor2_eqI:
  assumes "has_shape t1 [B, W]" "has_shape t2 [B, W]" "\<And>k. k < B \<Longrightarrow> row t1 k = row t2 k"
  shows "t1 = t2"
proof -
  have "elems t1 = concat (map (\<lambda>k. chunk W k (elems t1)) [0..<B])"
    using assms(1) by (simp add: concat_chunks length_elems2)
  also have "\<dots> = concat (map (\<lambda>k. chunk W k (elems t2)) [0..<B])"
    using assms by (intro arg_cong [where f = concat] map_cong refl) (simp add: row_def has_shapeD)
  also have "\<dots> = elems t2"
    using assms(2) by (simp add: concat_chunks length_elems2)
  finally show ?thesis
    using assms(1,2) by (simp add: tensor.expand has_shapeD)
qed

lemma zeros2:
  "has_shape (new_zeros [B, H]) [B, H]"
  "k < B \<Longrightarrow> row (new_zeros [B, H]) k = replicate H 0"
proof -
  show "has_shape (new_zeros [B, H]) [B, H]"
    by (simp add: has_shape_def wf_tensor_def new_zeros_def)
  assume "k < B"
  then have "Suc k \<le> B" by simp
  then have "Suc k * H \<le> B * H" by (rule mult_le_mono1)
  then have "H \<le> B * H - k * H" by simp
  then show "row (new_zeros [B, H]) k = replicate H 0"
    by (simp add: new_zeros_def row_def chunk_def min_def)
qed

lemma cat2:
  assumes "has_shape a [B, W1]" "has_shape b [B, W2]"
  shows "\<exists>r. cat [a, b] 1 = Some r \<and> has_shape r [B, W1 + W2] \<and>
             (\<forall>k<B. row r k = row a k @ row b k)"
proof -
  let ?f = "\<lambda>k. row a k @ row b k"
  have len: "\<And>i. i < B \<Longrightarrow> length (?f i) = W1 + W2"
    using assms by (simp add: length_row)
  have "cat [a, b] 1 = Some (Tensor [B, W1 + W2] (concat (map ?f [0..<B])))"
    using assms by (simp add: cat_def has_shapeD row_def)
  with rows_tensor [of B ?f "W1 + W2", OF len] show ?thesis
    by simp
qed

lemma unit_state_shape:
  "state_ok B H e \<Longrightarrow> has_shape (fst (unit_state B H e)) [B, H] \<and> has_shape (snd (unit_state B H e)) [B, H]"
  by (auto simp: state_ok_def unit_state_def zeros2 split: optional.splits)

lemma LSTMCell_forward_rows:
  assumes x: "has_shape x [B, cell_input_size u]"
    and e: "state_ok B (cell_hidden_size u) e"
    and g: "gate_ok u"
  shows "\<exists>h c. LSTMCell_forward u x e = Some (h, c) \<and>
           has_shape h [B, cell_hidden_size u] \<and> has_shape c [B, cell_hidden_size u] \<and>
           (\<forall>k<B. (row h k, row c k) =
                 cell_gate u (row x k) (row (fst (unit_state B (cell_hidden_size u) e)) k,
                                        row (snd (unit_state B (cell_hidden_size u) e)) k))"
proof -
  let ?H = "cell_hidden_size u"
  obtain h0 c0 where hc: "unit_state B ?H e = (h0, c0)"
    by (cases "unit_state B ?H e")
  with unit_state_shape [OF e] have s0: "has_shape h0 [B, ?H]" "has_shape c0 [B, ?H]"
    by simp_all
  let ?out = "\<lambda>b. cell_gate u (row x b) (row h0 b, row c0 b)"
  have len: "\<And>i. i < B \<Longrightarrow> length (fst (?out i)) = ?H \<and> length (snd (?out i)) = ?H"
    using g x s0 unfolding gate_ok_def by (simp add: length_row)
  have run: "LSTMCell_forward u x e =
      Some (Tensor [B, ?H] (concat (map (\<lambda>b. fst (?out b)) [0..<B])),
            Tensor [B, ?H] (concat (map (\<lambda>b. snd (?out b)) [0..<B])))"
    using x e hc s0
    by (auto simp: LSTMCell_forward_def has_shapeD state_ok_def unit_state_def comp_def
             split: optional.splits)
  show ?thesis
    unfolding run hc using len
    by (simp add: rows_tensor [where f = "\<lambda>b. fst (?out b)"] rows_tensor [where f = "\<lambda>b. snd (?out b)"])
qed

lemma select3:
  assumes "has_shape inp [B, L, I]" "t < L"
  shows "\<exists>x. select inp 1 t = Some x \<and> has_shape x [B, I] \<and>
             (\<forall>k<B. row x k = chunk I (k * L + t) (elems inp))"
proof -
  let ?f = "\<lambda>k. chunk I (k * L + t) (elems inp)"
  have len: "length (?f i) = I" if "i < B" for i
  proof -
    from that assms(2) have "Suc (i * L + t) \<le> B * L"
      by (metis Suc_leI add_less_cancel_left less_le_trans mult.commute mult_Suc_right mult_le_mono2 add.commute)
    then have "Suc (i * L + t) * I \<le> B * L * I" by (rule mult_le_mono1)
    with assms(1) show ?thesis
      by (simp add: length_chunk has_shapeD)
  qed
  have "select inp 1 t = Some (Tensor [B, I] (concat (map ?f [0..<B])))"
    using assms by (simp add: select_def has_shapeD)
  with rows_tensor [of B ?f I] len show ?thesis
    by simp
qed

lemma for_each_append:
  "for_each body (xs @ ys) s = (case for_each body xs s of None \<Rightarrow> None | Some s' \<Rightarrow> for_each body ys s')"
  by (induction xs arbitrary: s) (auto split: option.splits)

lemma for_each_Suc:
  "for_each body [0..<Suc n] s = (case for_each body [0..<n] s of None \<Rightarrow> None | Some s' \<Rightarrow> body n s')"
  by (simp add: for_each_append split: option.splits)

lemma for_each_rel:
  assumes "Inv 0 s t"
    and "\<And>i s t. i < n \<Longrightarrow> Inv i s t \<Longrightarrow> \<exists>s' t'. f i s = Some s' \<and> g i t = Some t' \<and> Inv (Suc i) s' t'"
  shows "\<exists>s' t'. for_each f [0..<n] s = Some s' \<and> for_each g [0..<n] t = Some t' \<and> Inv n s' t'"
  using assms(2)
proof (induction n)
  case 0
  with assms(1) show ?case by simp
next
  case (Suc n)
  from Suc.IH Suc.prems obtain s1 t1 where
    st: "for_each f [0..<n] s = Some s1" "for_each g [0..<n] t = Some t1" "Inv n s1 t1"
    by (metis less_Suc_eq)
  from Suc.prems [of n s1 t1] st(3) obtain s2 t2 where
    "f n s1 = Some s2" "g n t1 = Some t2" "Inv (Suc n) s2 t2"
    by auto
  with st show ?case
    by (simp add: for_each_append)
qed

lemma for_each_inv:
  assumes "P 0 s"
    and "\<And>i s. i < n \<Longrightarrow> P i s \<Longrightarrow> \<exists>s'. f i s = Some s' \<and> P (Suc i) s'"
  shows "\<exists>s'. for_each f [0..<n] s = Some s' \<and> P n s'"
proof -
  have "\<exists>s' t'. for_each f [0..<n] s = Some s' \<and> for_each f [0..<n] s = Some t' \<and> P n s' \<and> t' = s'"
    by (rule for_each_rel [where Inv = "\<lambda>i s t. P i s \<and> t = s"]) (use assms in auto)
  then show ?thesis by blast
qed

lemma sum_list_const: "(\<And>x. x \<in> set xs \<Longrightarrow> f x = (c::nat)) \<Longrightarrow> sum_list (map f xs) = length xs * c"
  by (induction xs) auto

lemma length_concat_const:
  "(\<And>x. x \<in> set xs \<Longrightarrow> length (f x) = c) \<Longrightarrow> length (concat (map f xs)) = length xs * c"
  by (induction xs) auto

lemma prod_list_split: "prod_list (pre @ n # post) = prod_list pre * (n * prod_list post)"
  for n :: nat
  by simp

lemma cat_same:
  assumes ne: "ts \<noteq> []"
    and sh: "\<And>t. t \<in> set ts \<Longrightarrow> has_shape t (pre @ n # post)"
  shows "\<exists>r. cat ts (length pre) = Some r \<and> has_shape r (pre @ (length ts * n) # post) \<and>
           (\<forall>k<prod_list pre. chunk (length ts * (n * prod_list post)) k (elems r) =
                 concat (map (\<lambda>t. chunk (n * prod_list post) k (elems t)) ts))"
proof -
  let ?m = "n * prod_list post"
  let ?f = "\<lambda>k. concat (map (\<lambda>t. chunk ?m k (elems t)) ts)"
  from ne obtain t0 ts' where ts: "ts = t0 # ts'" by (cases ts) auto
  have shp: "shape t = pre @ n # post" if "t \<in> set ts" for t
    using sh [OF that] by (simp add: has_shapeD)
  have len_el: "length (elems t) = prod_list pre * ?m" if "t \<in> set ts" for t
    using sh [OF that] by (simp add: has_shapeD)
  have ok: "list_all (\<lambda>t. length (shape t) = length (shape t0) \<and>
                         take (length pre) (shape t) = take (length pre) (shape t0) \<and>
                         drop (Suc (length pre)) (shape t) = drop (Suc (length pre)) (shape t0)) ts"
    using shp ts by (simp add: list_all_iff)
  have sum: "sum_list (map (\<lambda>t. shape t ! length pre) ts) = length ts * n"
    by (rule sum_list_const) (simp add: shp)
  have el: "(\<lambda>k. concat (map (\<lambda>t. chunk (prod_list (drop (length pre) (shape t))) k (elems t)) ts)) = ?f"
  proof (rule ext, rule arg_cong [where f = concat], rule map_cong [OF refl])
    fix k t assume "t \<in> set ts"
    then show "chunk (prod_list (drop (length pre) (shape t))) k (elems t) = chunk ?m k (elems t)"
      by (simp add: shp)
  qed
  have run: "cat ts (length pre) = Some (Tensor (pre @ (length ts * n) # post) (concat (map ?f [0..<prod_list pre])))"
    unfolding cat_def using ok sum el shp [of t0] ts
    by simp
  have lenf: "length (?f k) = length ts * ?m" if "k < prod_list pre" for k
  proof (rule length_concat_const)
    fix t assume t: "t \<in> set ts"
    from that have "Suc k \<le> prod_list pre" by simp
    then have "Suc k * ?m \<le> prod_list pre * ?m" by (rule mult_le_mono1)
    with len_el [OF t] show "length (chunk ?m k (elems t)) = ?m"
      by (simp add: length_chunk)
  qed
  have wf: "has_shape (Tensor (pre @ (length ts * n) # post) (concat (map ?f [0..<prod_list pre])))
              (pre @ (length ts * n) # post)"
    using length_concat_uniform [of "prod_list pre" ?f "length ts * ?m"] lenf
    by (simp add: has_shape_def wf_tensor_def)
  show ?thesis
    unfolding run using wf chunk_concat_uniform [of "prod_list pre" ?f "length ts * ?m"] lenf
    by simp
qed

lemma layer_input_rows:
  assumes v: "valid_cell self I" and l: "l < layers self" and hx: "stack_ok self B hx"
    and inp: "has_shape inp [B, I]"
    and rec: "has_shape recent [B, if l = 0 then I else hidden_size self]"
  shows "\<exists>r. layer_input self inp hx l recent = Some r \<and> has_shape r [B, unit_width self I l] \<and>
           (\<forall>k<B. row r k =
              row recent k @ (if 0 < l \<and> every_layer_input self then row inp k else []) @
              (if Suc l < layers self \<and> use_previous_higher self
               then row (fst (unit_state B (hidden_size self) (hx ! Suc l))) k else []))"
proof -
  let ?H = "hidden_size self"
  let ?w1 = "(if l = 0 then I else ?H + (if every_layer_input self then I else 0))"
  \<comment> \<open>line 236 and 237\<close>
  obtain r1 where r1: "(if 0 < l \<and> every_layer_input self then cat [recent, inp] 1 else Some recent) = Some r1"
    and r1s: "has_shape r1 [B, ?w1]"
    and r1r: "\<forall>k<B. row r1 k = row recent k @ (if 0 < l \<and> every_layer_input self then row inp k else [])"
  proof (cases "0 < l \<and> every_layer_input self")
    case True
    with rec have "has_shape recent [B, ?H]" by simp
    from cat2 [OF this inp] True that show ?thesis by auto
  next
    case False
    with rec that show ?thesis by (cases "l = 0") auto
  qed
  show ?thesis
  proof (cases "Suc l < layers self \<and> use_previous_higher self")
    case False
    then have n: "(int l < int (layers self) - 1 \<and> use_previous_higher self) = False"
      "(Suc l < layers self \<and> use_previous_higher self) = False"
      "(use_previous_higher self \<and> Suc l < layers self) = False"
      by auto
    have "layer_input self inp hx l recent = Some r1"
      using r1 by (simp add: layer_input_def n(1))
    with r1s r1r show ?thesis
      by (simp add: unit_width_def n)
  next
    case True
    then have c: "(int l < int (layers self) - 1 \<and> use_previous_higher self) = True"
      and c': "(use_previous_higher self \<and> Suc l < layers self) = True" 
        "(Suc l < layers self \<and> use_previous_higher self) = True"
      by auto
    from True hx have ok: "state_ok B ?H (hx ! Suc l)" and len: "Suc l < length hx"
      by (simp_all add: stack_ok_def)
    let ?prev = "fst (unit_state B ?H (hx ! Suc l))"
    have p: "(case hx ! Suc l of
               Absent \<Rightarrow> do { n \<leftarrow> tensor_size r1 0; Some (new_zeros [n, ?H]) }
             | Present (h, c) \<Rightarrow> Some h) = Some ?prev"
      using r1s by (auto simp: unit_state_def tensor_size_def getitem_def has_shapeD split: optional.splits)
    have ps: "has_shape ?prev [B, ?H]"
      using unit_state_shape [OF ok] by simp
    from cat2 [OF r1s ps] obtain r where
      r: "cat [r1, ?prev] 1 = Some r" "has_shape r [B, ?w1 + ?H]" "\<forall>k<B. row r k = row r1 k @ row ?prev k"
      by blast
    have "layer_input self inp hx l recent = Some r"
      using r1 c len p r(1) by (simp add: layer_input_def getitem_def)
    with r r1r show ?thesis
      by (simp add: unit_width_def c')
  qed
qed

lemma cell_body_rows:
  assumes v: "valid_cell self I" and l: "l < layers self" and hx: "stack_ok self B hx"
    and inp: "has_shape inp [B, I]"
    and rec: "has_shape recent [B, if l = 0 then I else hidden_size self]"
  shows "\<exists>r h c. layer_input self inp hx l recent = Some r \<and>
           cell_body self inp hx l (recent, outputs) = Some (h, outputs @ [Present (h, c)]) \<and>
           has_shape h [B, hidden_size self] \<and> has_shape c [B, hidden_size self] \<and>
           (\<forall>k<B. (row h k, row c k) =
              cell_gate (lstm_cells self ! l) (row r k)
                (row (fst (unit_state B (hidden_size self) (hx ! l))) k,
                 row (snd (unit_state B (hidden_size self) (hx ! l))) k))"
proof -
  let ?u = "lstm_cells self ! l"
  from layer_input_rows [OF assms] obtain r where
    r: "layer_input self inp hx l recent = Some r" "has_shape r [B, unit_width self I l]"
    by blast
  from v l have u: "cell_input_size ?u = unit_width self I l" "cell_hidden_size ?u = hidden_size self"
    "gate_ok ?u" "l < length (lstm_cells self)"
    by (simp_all add: valid_cell_def)
  from hx l have e: "state_ok B (cell_hidden_size ?u) (hx ! l)" "l < length hx"
    by (simp_all add: stack_ok_def u)
  from r(2) have x: "has_shape r [B, cell_input_size ?u]" by (simp add: u)
  from LSTMCell_forward_rows [OF x e(1) u(3)] obtain h c where
    hc: "LSTMCell_forward ?u r (hx ! l) = Some (h, c)"
      "has_shape h [B, cell_hidden_size ?u]" "has_shape c [B, cell_hidden_size ?u]"
      "\<forall>k<B. (row h k, row c k) =
          cell_gate ?u (row r k) (row (fst (unit_state B (cell_hidden_size ?u) (hx ! l))) k,
                                  row (snd (unit_state B (cell_hidden_size ?u) (hx ! l))) k)"
    by blast
  have "cell_body self inp hx l (recent, outputs) = Some (h, outputs @ [Present (h, c)])"
    using r(1) hc(1) u(4) e(2) by (simp add: cell_body_def getitem_def)
  with r(1) hc(2-4) show ?thesis
    by (auto simp: u)
qed

lemma present_ok_state_ok: "present_ok B H e \<Longrightarrow> state_ok B H e"
  by (auto simp: present_ok_def state_ok_def)

lemma outs_ok_stack_ok: "outs_ok self B os \<Longrightarrow> stack_ok self B os"
  by (simp add: outs_ok_def stack_ok_def present_ok_state_ok)

lemma stack_ok_replicate: "stack_ok self B (replicate (layers self) Absent)"
  by (simp add: stack_ok_def state_ok_def)

lemma entry_rel_unit_state:
  assumes "entry_rel B k e1 e2" "k < B"
  shows "row (fst (unit_state B H e1)) k = row (fst (unit_state B H e2)) k"
    and "row (snd (unit_state B H e1)) k = row (snd (unit_state B H e2)) k"
  using assms
  by (auto simp: entry_rel_def unit_state_def rows_eq_def split: optional.splits)

lemma cell_body_rel:
  assumes v: "valid_cell self I" and l: "l < layers self"
    and hx1: "stack_ok self B hx1" and hx2: "stack_ok self B hx2"
    and hxr: "\<forall>j<layers self. entry_rel B k (hx1 ! j) (hx2 ! j)"
    and i1: "has_shape inp1 [B, I]" and i2: "has_shape inp2 [B, I]" and ir: "rows_eq B k inp1 inp2"
    and inv: "cell_inv self B I k l s1 s2"
  shows "\<exists>s1' s2'. cell_body self inp1 hx1 l s1 = Some s1' \<and> cell_body self inp2 hx2 l s2 = Some s2' \<and>
           cell_inv self B I k (Suc l) s1' s2'"
proof -
  let ?H = "hidden_size self"
  obtain rec1 o1 where s1: "s1 = (rec1, o1)" by (cases s1)
  obtain rec2 o2 where s2: "s2 = (rec2, o2)" by (cases s2)
  from inv have r1: "has_shape rec1 [B, if l = 0 then I else ?H]"
    and r2: "has_shape rec2 [B, if l = 0 then I else ?H]"
    and rr: "rows_eq B k rec1 rec2"
    and lo: "length o1 = l" "length o2 = l"
    and old: "\<forall>j<l. present_ok B ?H (o1 ! j) \<and> present_ok B ?H (o2 ! j) \<and> entry_rel B k (o1 ! j) (o2 ! j)"
    by (simp_all add: cell_inv_def s1 s2)
  from cell_body_rows [OF v l hx1 i1 r1, of o1] layer_input_rows [OF v l hx1 i1 r1]
  obtain x1 h1 c1 where a1:
    "cell_body self inp1 hx1 l (rec1, o1) = Some (h1, o1 @ [Present (h1, c1)])"
    "has_shape h1 [B, ?H]" "has_shape c1 [B, ?H]"
    "\<forall>k<B. (row h1 k, row c1 k) =
        cell_gate (lstm_cells self ! l) (row x1 k)
          (row (fst (unit_state B ?H (hx1 ! l))) k, row (snd (unit_state B ?H (hx1 ! l))) k)"
    "\<forall>k<B. row x1 k =
        row rec1 k @ (if 0 < l \<and> every_layer_input self then row inp1 k else []) @
        (if Suc l < layers self \<and> use_previous_higher self
         then row (fst (unit_state B ?H (hx1 ! Suc l))) k else [])"
    by force
  from cell_body_rows [OF v l hx2 i2 r2, of o2] layer_input_rows [OF v l hx2 i2 r2]
  obtain x2 h2 c2 where a2:
    "cell_body self inp2 hx2 l (rec2, o2) = Some (h2, o2 @ [Present (h2, c2)])"
    "has_shape h2 [B, ?H]" "has_shape c2 [B, ?H]"
    "\<forall>k<B. (row h2 k, row c2 k) =
        cell_gate (lstm_cells self ! l) (row x2 k)
          (row (fst (unit_state B ?H (hx2 ! l))) k, row (snd (unit_state B ?H (hx2 ! l))) k)"
    "\<forall>k<B. row x2 k =
        row rec2 k @ (if 0 < l \<and> every_layer_input self then row inp2 k else []) @
        (if Suc l < layers self \<and> use_previous_higher self
         then row (fst (unit_state B ?H (hx2 ! Suc l))) k else [])"
    by force
  have eq: "row h1 k = row h2 k \<and> row c1 k = row c2 k" if k: "k < B"
  proof -
    from k rr ir have e0: "row rec1 k = row rec2 k" "row inp1 k = row inp2 k"
      by (simp_all add: rows_eq_def)
    have e1: "row (fst (unit_state B ?H (hx1 ! l))) k = row (fst (unit_state B ?H (hx2 ! l))) k"
      "row (snd (unit_state B ?H (hx1 ! l))) k = row (snd (unit_state B ?H (hx2 ! l))) k"
      using hxr l k by (simp_all add: entry_rel_unit_state)
    have e2: "Suc l < layers self \<Longrightarrow>
        row (fst (unit_state B ?H (hx1 ! Suc l))) k = row (fst (unit_state B ?H (hx2 ! Suc l))) k"
      using hxr k by (simp add: entry_rel_unit_state)
    have "row x1 k = row x2 k"
      using a1(5) a2(5) k e0 e2 by simp
    with a1(4) a2(4) k e1 have "(row h1 k, row c1 k) = (row h2 k, row c2 k)"
      by simp
    then show ?thesis by simp
  qed
  have new: "present_ok B ?H (Present (h1, c1))" "present_ok B ?H (Present (h2, c2))"
    "entry_rel B k (Present (h1, c1)) (Present (h2, c2))"
    using a1(2,3) a2(2,3) eq by (auto simp: present_ok_def entry_rel_def rows_eq_def)
  have "cell_inv self B I k (Suc l) (h1, o1 @ [Present (h1, c1)]) (h2, o2 @ [Present (h2, c2)])"
    using lo old new a1(2) a2(2) eq
    by (auto simp: cell_inv_def nth_append less_Suc_eq rows_eq_def)
  with a1(1) a2(1) show ?thesis
    by (simp add: s1 s2)
qed

lemma cell_forward_rel_list:
  assumes v: "valid_cell self I"
    and hx1: "stack_ok self B hx1" and hx2: "stack_ok self B hx2"
    and hxr: "\<forall>j<layers self. entry_rel B k (hx1 ! j) (hx2 ! j)"
    and i1: "has_shape inp1 [B, I]" and i2: "has_shape inp2 [B, I]" and ir: "rows_eq B k inp1 inp2"
  shows "\<exists>s1 s2. for_each (cell_body self inp1 hx1) [0..<layers self] (inp1, []) = Some s1 \<and>
                 for_each (cell_body self inp2 hx2) [0..<layers self] (inp2, []) = Some s2 \<and>
                 cell_inv self B I k (layers self) s1 s2"
proof (rule for_each_rel)
  show "cell_inv self B I k 0 (inp1, []) (inp2, [])"
    using i1 i2 ir by (simp add: cell_inv_def)
next
  fix i s t
  assume "i < layers self" "cell_inv self B I k i s t"
  then show "\<exists>s' t'. cell_body self inp1 hx1 i s = Some s' \<and> cell_body self inp2 hx2 i t = Some t' \<and>
                     cell_inv self B I k (Suc i) s' t'"
    using cell_body_rel [OF v _ hx1 hx2 hxr i1 i2 ir] by blast
qed

lemma chunk_one: "j < length xs \<Longrightarrow> chunk (Suc 0) j xs = [xs ! j]"
  by (simp add: chunk_def take_Suc_conv_app_nth)

lemma index2_less:
  assumes "b < B" "t < L"
  shows "b * L + t < B * (L::nat)"
proof -
  from assms(1) have "Suc b \<le> B" by simp
  then have "Suc b * L \<le> B * L" by (rule mult_le_mono1)
  with assms(2) show ?thesis by simp
qed

lemma reset_column:
  assumes "has_shape r [B, L]" "t < L"
  shows "select r 1 t \<bind> (\<lambda>s. unsqueeze s 1) = Some (Tensor [B, 1] (map (\<lambda>b. entry2 r b t) [0..<B]))"
proof -
  have "concat (map (\<lambda>k. chunk 1 (k * L + t) (elems r)) [0..<B]) = concat (map (\<lambda>b. [entry2 r b t]) [0..<B])"
  proof (rule arg_cong [where f = concat], rule map_cong [OF refl])
    fix k assume "k \<in> set [0..<B]"
    then have "k * L + t < length (elems r)"
      using assms by (simp add: index2_less length_elems2)
    then show "chunk 1 (k * L + t) (elems r) = [entry2 r k t]"
      using assms(1) by (simp add: chunk_one entry2_def has_shapeD)
  qed
  also have "\<dots> = map (\<lambda>b. entry2 r b t) [0..<B]"
    by (induction B) simp_all
  finally show ?thesis
    using assms by (simp add: select_def unsqueeze_def has_shapeD)
qed

lemma mul_column:
  assumes h: "has_shape h [B, H]" and ys: "length ys = B"
  shows "\<exists>r. mul h (Tensor [B, 1] ys) = Some r \<and> has_shape r [B, H] \<and>
             (\<forall>b<B. row r b = map (\<lambda>x. x * ys ! b) (row h b))"
proof -
  let ?y = "Tensor [B, 1] ys"
  let ?f = "\<lambda>i. map (\<lambda>j. at2 h i j * at2 ?y i j) [0..<H]"
  have run: "mul h ?y = Some (Tensor [B, H] (concat (map ?f [0..<B])))"
    using h by (simp add: mul_def has_shapeD bdim_def)
  have f: "?f b = map (\<lambda>x. x * ys ! b) (row h b)" if b: "b < B" for b
  proof (rule nth_equalityI)
    show "length (?f b) = length (map (\<lambda>x. x * ys ! b) (row h b))"
      using length_row [OF h b] by simp
  next
    fix j assume "j < length (?f b)"
    then have j: "j < H" by simp
    from b have "Suc b \<le> B" by simp
    then have le: "Suc b * H \<le> length (elems h)"
      using h by (simp add: length_elems2 del: mult_Suc)
    have 1: "at2 h b j = row h b ! j"
      using h b j le by (auto simp: at2_def row_def has_shapeD nth_chunk)
    have 2: "at2 ?y b j = ys ! b"
      using b by (auto simp: at2_def)
    from 1 2 j length_row [OF h b] show "?f b ! j = map (\<lambda>x. x * ys ! b) (row h b) ! j"
      by simp
  qed
  have len: "\<And>i. i < B \<Longrightarrow> length (?f i) = H" by simp
  from rows_tensor [of B ?f H, OF len] f show ?thesis
    unfolding run by simp
qed

lemma those_map:
  "(\<And>x. x \<in> set xs \<Longrightarrow> f x = Some (g x)) \<Longrightarrow> those (map f xs) = Some (map g xs)"
  by (induction xs) simp_all

lemma hidden_view_present:
  assumes "has_shape h [B, H]"
  shows "hidden_view (Present (h, c)) = Some (Tensor [B, 1, 1, H] (elems h))"
  using assms by (simp add: hidden_view_def unsqueeze_def has_shapeD)

lemma step_output_rows:
  assumes ok: "outs_ok self B hx" and pos: "0 < layers self"
  shows "\<exists>out. step_output hx = Some out \<and> has_shape out [B, 1, layers self, hidden_size self] \<and>
           (\<forall>b<B. chunk (layers self * hidden_size self) b (elems out) =
                 concat (map (\<lambda>e. row (fst (unit_state B (hidden_size self) e)) b) hx))"
proof -
  let ?H = "hidden_size self"
  let ?g = "\<lambda>e. Tensor [B, 1, 1, ?H] (elems (fst (unit_state B ?H e)))"
  have each: "hidden_view e = Some (?g e) \<and> has_shape (?g e) ([B, 1] @ 1 # [?H]) \<and>
              shape (fst (unit_state B ?H e)) = [B, ?H]" if "e \<in> set hx" for e
  proof -
    from that obtain j where "j < length hx" "e = hx ! j" by (auto simp: in_set_conv_nth)
    with ok obtain h c where e: "e = Present (h, c)" "has_shape h [B, ?H]"
      by (auto simp: outs_ok_def present_ok_def)
    then show ?thesis
      by (simp add: hidden_view_present unit_state_def has_shape_def wf_tensor_def)
  qed
  have th: "those (map hidden_view hx) = Some (map ?g hx)"
    by (rule those_map) (simp add: each)
  have ne: "map ?g hx \<noteq> []"
    using ok pos by (auto simp: outs_ok_def)
  have "\<And>t. t \<in> set (map ?g hx) \<Longrightarrow> has_shape t ([B, 1] @ 1 # [?H])"
    using each by auto
  from cat_same [OF ne this]
  have "\<exists>out. cat (map ?g hx) 2 = Some out \<and> has_shape out [B, 1, length hx, ?H] \<and>
          (\<forall>k<B. chunk (length hx * ?H) k (elems out) =
              concat (map (\<lambda>t. chunk ?H k (elems t)) (map ?g hx)))"
    by (simp add: numeral_2_eq_2)
  then obtain out where
    out: "cat (map ?g hx) 2 = Some out" "has_shape out [B, 1, length hx, ?H]"
      "\<forall>k<B. chunk (length hx * ?H) k (elems out) = concat (map (\<lambda>t. chunk ?H k (elems t)) (map ?g hx))"
    by blast
  have "concat (map (\<lambda>t. chunk ?H k (elems t)) (map ?g hx)) =
        concat (map (\<lambda>e. row (fst (unit_state B ?H e)) k) hx)" for k
    unfolding map_map comp_def
    by (intro arg_cong [where f = concat] map_cong refl) (simp add: row_def each)
  with out th ok show ?thesis
    by (simp add: step_output_def outs_ok_def)
qed

lemma reset_entry_scale:
  "reset_entry rt (i, e) hx = map_option (\<lambda>e'. hx[i := e']) (scale_state (rsub 1 rt) e)"
  by (auto simp: reset_entry_def scale_state_def split: optional.splits Option.bind_splits)

lemma reset_loop:
  assumes "\<And>e. e \<in> set xs \<Longrightarrow> scale_state (rsub 1 rt) e = Some (g e)"
  shows "for_each (reset_entry rt) (enumerate (length pre) xs) (pre @ xs) = Some (pre @ map g xs)"
  using assms
proof (induction xs arbitrary: pre)
  case Nil
  then show ?case by simp
next
  case (Cons x xs)
  have "for_each (reset_entry rt) (enumerate (length (pre @ [g x])) xs) ((pre @ [g x]) @ xs) =
        Some ((pre @ [g x]) @ map g xs)"
    by (rule Cons.IH) (simp add: Cons.prems)
  then show ?case
    using Cons.prems [of x] by (simp add: reset_entry_scale)
qed

lemma scale_state_rows:
  assumes e: "present_ok B H e" and vs: "length vs = B"
  shows "\<exists>h c h' c'. e = Present (h, c) \<and>
           scale_state (rsub 1 (Tensor [B, 1] vs)) e = Some (Present (h', c')) \<and>
           has_shape h' [B, H] \<and> has_shape c' [B, H] \<and>
           (\<forall>b<B. row h' b = map (\<lambda>x. x * (1 - vs ! b)) (row h b) \<and>
                  row c' b = map (\<lambda>x. x * (1 - vs ! b)) (row c b))"
proof -
  from e obtain h c where hc: "e = Present (h, c)" "has_shape h [B, H]" "has_shape c [B, H]"
    by (auto simp: present_ok_def)
  let ?ys = "map (\<lambda>x. 1 - x) vs"
  have m: "rsub 1 (Tensor [B, 1] vs) = Tensor [B, 1] ?ys"
    by (simp add: rsub_def)
  have len: "length ?ys = B" using vs by simp
  from mul_column [OF hc(2) len] obtain h' where
    h': "mul h (Tensor [B, 1] ?ys) = Some h'" "has_shape h' [B, H]"
      "\<forall>b<B. row h' b = map (\<lambda>x. x * ?ys ! b) (row h b)"
    by blast
  from mul_column [OF hc(3) len] obtain c' where
    c': "mul c (Tensor [B, 1] ?ys) = Some c'" "has_shape c' [B, H]"
      "\<forall>b<B. row c' b = map (\<lambda>x. x * ?ys ! b) (row c b)"
    by blast
  have "scale_state (rsub 1 (Tensor [B, 1] vs)) e = Some (Present (h', c'))"
    using h'(1) c'(1) by (simp add: scale_state_def hc(1) rsub_def)
  with hc(1) h'(2,3) c'(2,3) vs show ?thesis
    by auto
qed

lemma apply_reset_rows:
  assumes ok: "outs_ok self B hx" and r: "has_shape r [B, L]" and t: "t < L"
  shows "\<exists>hx'. apply_reset (Present r) t hx = Some hx' \<and> outs_ok self B hx' \<and>
           ((\<exists>b<B. 1 / 10 ^ 6 < entry2 r b t) \<longrightarrow>
              (\<forall>j<layers self. \<exists>h c h' c'. hx ! j = Present (h, c) \<and> hx' ! j = Present (h', c') \<and>
                   (\<forall>b<B. row h' b = map (\<lambda>x. x * (1 - entry2 r b t)) (row h b) \<and>
                          row c' b = map (\<lambda>x. x * (1 - entry2 r b t)) (row c b)))) \<and>
           ((\<forall>b<B. \<not> 1 / 10 ^ 6 < entry2 r b t) \<longrightarrow> hx' = hx)"
proof -
  let ?H = "hidden_size self"
  let ?vs = "map (\<lambda>b. entry2 r b t) [0..<B]"
  let ?rt = "Tensor [B, 1] ?vs"
  let ?g = "\<lambda>e. the (scale_state (rsub 1 ?rt) e)"
  from reset_column [OF r t] obtain s where col: "select r 1 t = Some s" "unsqueeze s 1 = Some ?rt"
    by (auto simp: bind_eq_Some_conv)
  have gate: "any_gt ?rt (1 / 10 ^ 6) = (\<exists>b<B. 1 / 10 ^ 6 < entry2 r b t)"
    by (auto simp: any_gt_def list_ex_iff)
  show ?thesis
  proof (cases "\<exists>b<B. 1 / 10 ^ 6 < entry2 r b t")
    case False
    with gate have "any_gt ?rt (1 / 10 ^ 6) = False" by simp
    then have "apply_reset (Present r) t hx = Some hx"
      unfolding apply_reset_def using col by simp
    with False ok show ?thesis by auto
  next
    case True
    have each: "\<exists>h c h' c'. hx ! j = Present (h, c) \<and>
           scale_state (rsub 1 ?rt) (hx ! j) = Some (Present (h', c')) \<and>
           has_shape h' [B, ?H] \<and> has_shape c' [B, ?H] \<and>
           (\<forall>b<B. row h' b = map (\<lambda>x. x * (1 - entry2 r b t)) (row h b) \<and>
                  row c' b = map (\<lambda>x. x * (1 - entry2 r b t)) (row c b))"
      if j: "j < layers self" for j
    proof -
      from ok j have "present_ok B ?H (hx ! j)" by (simp add: outs_ok_def)
      from scale_state_rows [OF this, of ?vs] show ?thesis by simp
    qed
    have some: "scale_state (rsub 1 ?rt) e = Some (?g e)" if "e \<in> set hx" for e
    proof -
      from that ok obtain j where "j < layers self" "e = hx ! j"
        by (auto simp: in_set_conv_nth outs_ok_def)
      with each [of j] show ?thesis by auto
    qed
    have "for_each (reset_entry ?rt) (enumerate (length ([]::layer_state list)) hx) ([] @ hx) = Some ([] @ map ?g hx)"
      by (rule reset_loop) (rule some)
    moreover from gate True have "any_gt ?rt (1 / 10 ^ 6) = True" by simp
    ultimately have run: "apply_reset (Present r) t hx = Some (map ?g hx)"
      unfolding apply_reset_def using col by simp
    have len: "length hx = layers self" using ok by (simp add: outs_ok_def)
    have new: "\<exists>h c h' c'. hx ! j = Present (h, c) \<and> map ?g hx ! j = Present (h', c') \<and>
           has_shape h' [B, ?H] \<and> has_shape c' [B, ?H] \<and>
           (\<forall>b<B. row h' b = map (\<lambda>x. x * (1 - entry2 r b t)) (row h b) \<and>
                  row c' b = map (\<lambda>x. x * (1 - entry2 r b t)) (row c b))"
      if j: "j < layers self" for j
      using each [OF j] j len by auto
    have "outs_ok self B (map ?g hx)"
      unfolding outs_ok_def present_ok_def using new len by fastforce
    moreover have "\<forall>j<layers self. \<exists>h c h' c'. hx ! j = Present (h, c) \<and> map ?g hx ! j = Present (h', c') \<and>
                   (\<forall>b<B. row h' b = map (\<lambda>x. x * (1 - entry2 r b t)) (row h b) \<and>
                          row c' b = map (\<lambda>x. x * (1 - entry2 r b t)) (row c b))"
      using new by blast
    ultimately show ?thesis
      unfolding run using True by auto
  qed
qed

lemma outs_okD:
  "outs_ok self B os \<Longrightarrow> j < layers self \<Longrightarrow>
   \<exists>h c. os ! j = Present (h, c) \<and> has_shape h [B, hidden_size self] \<and> has_shape c [B, hidden_size self]"
  unfolding outs_ok_def present_ok_def by blast

lemma entry_rel_Absent: "entry_rel B k Absent Absent"
  by (simp add: entry_rel_def)

lemma cell_forward_rel:
  assumes v: "valid_cell self I" and st: "carried_rel self B k st1 st2"
    and i1: "has_shape inp1 [B, I]" and i2: "has_shape inp2 [B, I]" and ir: "rows_eq B k inp1 inp2"
  shows "\<exists>o1 o2. MultilayerLSTMCell_forward self inp1 st1 = Some o1 \<and>
                 MultilayerLSTMCell_forward self inp2 st2 = Some o2 \<and>
                 outs_ok self B o1 \<and> outs_ok self B o2 \<and>
                 (\<forall>j<layers self. entry_rel B k (o1 ! j) (o2 ! j))"
proof -
  let ?hx1 = "case st1 of Absent \<Rightarrow> replicate (layers self) Absent | Present l \<Rightarrow> l"
  let ?hx2 = "case st2 of Absent \<Rightarrow> replicate (layers self) Absent | Present l \<Rightarrow> l"
  from st have hx: "stack_ok self B ?hx1" "stack_ok self B ?hx2"
    "\<forall>j<layers self. entry_rel B k (?hx1 ! j) (?hx2 ! j)"
    by (auto simp: carried_rel_def stack_ok_replicate entry_rel_Absent split: optional.splits)
  from cell_forward_rel_list [OF v hx i1 i2 ir] obtain s1 s2 where
    run: "for_each (cell_body self inp1 ?hx1) [0..<layers self] (inp1, []) = Some s1"
      "for_each (cell_body self inp2 ?hx2) [0..<layers self] (inp2, []) = Some s2"
    and inv: "cell_inv self B I k (layers self) s1 s2"
    by blast
  have "MultilayerLSTMCell_forward self inp1 st1 = Some (snd s1)"
    "MultilayerLSTMCell_forward self inp2 st2 = Some (snd s2)"
    using run by (simp_all add: MultilayerLSTMCell_forward_def split_beta)
  moreover from inv have "outs_ok self B (snd s1)" "outs_ok self B (snd s2)"
    "\<forall>j<layers self. entry_rel B k (snd s1 ! j) (snd s2 ! j)"
    by (simp_all add: cell_inv_def outs_ok_def)
  ultimately show ?thesis by blast
qed

lemma apply_reset_rel:
  assumes o1: "outs_ok self B o1" and o2: "outs_ok self B o2"
    and rel: "\<forall>j<layers self. entry_rel B k (o1 ! j) (o2 ! j)"
    and rr: "reset_rel B L k t reset1 reset2" and t: "t < L"
  shows "\<exists>c1 c2. apply_reset reset1 t o1 = Some c1 \<and> apply_reset reset2 t o2 = Some c2 \<and>
           outs_ok self B c1 \<and> outs_ok self B c2 \<and>
           (\<forall>j<layers self. entry_rel B k (c1 ! j) (c2 ! j))"
proof (cases reset1)
  case Absent
  with rr have "reset2 = Absent" by (simp add: reset_rel_def)
  with Absent o1 o2 rel show ?thesis by (simp add: apply_reset_def)
next
  case (Present r1)
  with rr obtain r2 where r2: "reset2 = Present r2"
    and sh: "has_shape r1 [B, L]" "has_shape r2 [B, L]"
    and at: "k < B \<Longrightarrow> entry2 r1 k t = entry2 r2 k t"
            "k < B \<Longrightarrow> entry2 r1 k t = 0 \<or> 1 / 10 ^ 6 < entry2 r1 k t"
    by (auto simp: reset_rel_def split: optional.splits)
  let ?g1 = "\<exists>b<B. 1 / 10 ^ 6 < entry2 r1 b t"
  let ?g2 = "\<exists>b<B. 1 / 10 ^ 6 < entry2 r2 b t"
  from apply_reset_rows [OF o1 sh(1) t] obtain c1 where
    c1: "apply_reset (Present r1) t o1 = Some c1" "outs_ok self B c1"
      "?g1 \<longrightarrow> (\<forall>j<layers self. \<exists>h c h' c'. o1 ! j = Present (h, c) \<and> c1 ! j = Present (h', c') \<and>
                   (\<forall>b<B. row h' b = map (\<lambda>x. x * (1 - entry2 r1 b t)) (row h b) \<and>
                          row c' b = map (\<lambda>x. x * (1 - entry2 r1 b t)) (row c b)))"
      "(\<forall>b<B. \<not> 1 / 10 ^ 6 < entry2 r1 b t) \<longrightarrow> c1 = o1"
    by blast
  from apply_reset_rows [OF o2 sh(2) t] obtain c2 where
    c2: "apply_reset (Present r2) t o2 = Some c2" "outs_ok self B c2"
      "?g2 \<longrightarrow> (\<forall>j<layers self. \<exists>h c h' c'. o2 ! j = Present (h, c) \<and> c2 ! j = Present (h', c') \<and>
                   (\<forall>b<B. row h' b = map (\<lambda>x. x * (1 - entry2 r2 b t)) (row h b) \<and>
                          row c' b = map (\<lambda>x. x * (1 - entry2 r2 b t)) (row c b)))"
      "(\<forall>b<B. \<not> 1 / 10 ^ 6 < entry2 r2 b t) \<longrightarrow> c2 = o2"
    by blast
  have "entry_rel B k (c1 ! j) (c2 ! j)" if j: "j < layers self" for j
  proof (cases "k < B")
    case False
    from outs_okD [OF c1(2) j] outs_okD [OF c2(2) j]
    obtain a1 b1 a2 b2 where "c1 ! j = Present (a1, b1)" "c2 ! j = Present (a2, b2)"
      by blast
    with False show ?thesis
      by (simp add: entry_rel_def rows_eq_def)
  next
    case k: True
    let ?a = "entry2 r1 k t"
    from outs_okD [OF o1 j] outs_okD [OF o2 j] obtain h1 d1 h2 d2 where
      e: "o1 ! j = Present (h1, d1)" "o2 ! j = Present (h2, d2)"
      by blast
    with rel j k have eq: "row h1 k = row h2 k" "row d1 k = row d2 k"
      by (auto simp: entry_rel_def rows_eq_def)
    have r1k: "\<exists>h' c'. c1 ! j = Present (h', c') \<and> row h' k = map (\<lambda>x. x * (1 - ?a)) (row h1 k) \<and>
                 row c' k = map (\<lambda>x. x * (1 - ?a)) (row d1 k)"
    proof (cases ?g1)
      case True
      with c1(3) j have "\<exists>h c h' c'. o1 ! j = Present (h, c) \<and> c1 ! j = Present (h', c') \<and>
                   (\<forall>b<B. row h' b = map (\<lambda>x. x * (1 - entry2 r1 b t)) (row h b) \<and>
                          row c' b = map (\<lambda>x. x * (1 - entry2 r1 b t)) (row c b))"
        by blast
      with k e(1) show ?thesis by auto
    next
      case False
      then have all: "\<forall>b<B. \<not> 1 / 10 ^ 6 < entry2 r1 b t" by blast
      with k have "\<not> 1 / 10 ^ 6 < ?a" by blast
      with at(2) [OF k] have "?a = 0" by blast
      moreover from c1(4) all have "c1 = o1" by blast
      ultimately show ?thesis using e(1) by simp
    qed
    have r2k: "\<exists>h' c'. c2 ! j = Present (h', c') \<and> row h' k = map (\<lambda>x. x * (1 - ?a)) (row h2 k) \<and>
                 row c' k = map (\<lambda>x. x * (1 - ?a)) (row d2 k)"
    proof (cases ?g2)
      case True
      with c2(3) j have "\<exists>h c h' c'. o2 ! j = Present (h, c) \<and> c2 ! j = Present (h', c') \<and>
                   (\<forall>b<B. row h' b = map (\<lambda>x. x * (1 - entry2 r2 b t)) (row h b) \<and>
                          row c' b = map (\<lambda>x. x * (1 - entry2 r2 b t)) (row c b))"
        by blast
      with k e(2) at(1) [OF k] show ?thesis by auto
    next
      case False
      then have all: "\<forall>b<B. \<not> 1 / 10 ^ 6 < entry2 r2 b t" by blast
      with k have "\<not> 1 / 10 ^ 6 < entry2 r2 k t" by blast
      with at [OF k] have "?a = 0" by auto
      moreover from c2(4) all have "c2 = o2" by blast
      ultimately show ?thesis using e(2) by simp
    qed
    from r1k r2k eq show ?thesis
      by (auto simp: entry_rel_def rows_eq_def)
  qed
  with c1(1,2) c2(1,2) Present r2 show ?thesis by blast
qed

lemma batch_elem3: "has_shape t [B, L, I] \<Longrightarrow> batch_elem t b = chunk (L * I) b (elems t)"
  by (simp add: batch_elem_def has_shapeD)

lemma batch_elem4: "has_shape t [B, L, N, H] \<Longrightarrow> batch_elem t b = chunk (L * (N * H)) b (elems t)"
  by (simp add: batch_elem_def has_shapeD)

lemma batch_elem2: "has_shape t [B, W] \<Longrightarrow> batch_elem t b = row t b"
  by (simp add: batch_elem_def has_shapeD row_def)

lemma select3_rel:
  assumes i1: "has_shape inp1 [B, L, I]" and i2: "has_shape inp2 [B, L, I]" and t: "t < L"
    and eq: "k < B \<longrightarrow> batch_elem inp1 k = batch_elem inp2 k"
  shows "\<exists>x1 x2. select inp1 1 t = Some x1 \<and> select inp2 1 t = Some x2 \<and>
           has_shape x1 [B, I] \<and> has_shape x2 [B, I] \<and> rows_eq B k x1 x2"
proof -
  from select3 [OF i1 t] obtain x1 where
    x1: "select inp1 1 t = Some x1" "has_shape x1 [B, I]" "\<forall>k<B. row x1 k = chunk I (k * L + t) (elems inp1)"
    by blast
  from select3 [OF i2 t] obtain x2 where
    x2: "select inp2 1 t = Some x2" "has_shape x2 [B, I]" "\<forall>k<B. row x2 k = chunk I (k * L + t) (elems inp2)"
    by blast
  have "row x1 k = row x2 k" if k: "k < B"
  proof -
    from eq k have "chunk (L * I) k (elems inp1) = chunk (L * I) k (elems inp2)"
      by (simp add: batch_elem3 [OF i1] batch_elem3 [OF i2])
    then have "chunk I t (chunk (L * I) k (elems inp1)) = chunk I t (chunk (L * I) k (elems inp2))"
      by simp
    then show ?thesis
      using x1(3) x2(3) k by (simp add: chunk_chunk [OF t])
  qed
  with x1 x2 show ?thesis
    by (auto simp: rows_eq_def)
qed

lemma step_output_rel:
  assumes o1: "outs_ok self B o1" and o2: "outs_ok self B o2" and pos: "0 < layers self"
    and rel: "\<forall>j<layers self. entry_rel B k (o1 ! j) (o2 ! j)"
  shows "\<exists>y1 y2. step_output o1 = Some y1 \<and> step_output o2 = Some y2 \<and>
           has_shape y1 [B, 1, layers self, hidden_size self] \<and>
           has_shape y2 [B, 1, layers self, hidden_size self] \<and>
           (k < B \<longrightarrow> batch_elem y1 k = batch_elem y2 k)"
proof -
  let ?H = "hidden_size self"
  from step_output_rows [OF o1 pos] obtain y1 where
    y1: "step_output o1 = Some y1" "has_shape y1 [B, 1, layers self, ?H]"
      "\<forall>b<B. chunk (layers self * ?H) b (elems y1) = concat (map (\<lambda>e. row (fst (unit_state B ?H e)) b) o1)"
    by blast
  from step_output_rows [OF o2 pos] obtain y2 where
    y2: "step_output o2 = Some y2" "has_shape y2 [B, 1, layers self, ?H]"
      "\<forall>b<B. chunk (layers self * ?H) b (elems y2) = concat (map (\<lambda>e. row (fst (unit_state B ?H e)) b) o2)"
    by blast
  have "batch_elem y1 k = batch_elem y2 k" if k: "k < B"
  proof -
    have "map (\<lambda>e. row (fst (unit_state B ?H e)) k) o1 = map (\<lambda>e. row (fst (unit_state B ?H e)) k) o2"
    proof (rule nth_equalityI)
      show "length (map (\<lambda>e. row (fst (unit_state B ?H e)) k) o1) =
            length (map (\<lambda>e. row (fst (unit_state B ?H e)) k) o2)"
        using o1 o2 by (simp add: outs_ok_def)
    next
      fix j assume "j < length (map (\<lambda>e. row (fst (unit_state B ?H e)) k) o1)"
      then have j: "j < layers self" using o1 by (simp add: outs_ok_def)
      with rel have "entry_rel B k (o1 ! j) (o2 ! j)" by blast
      from entry_rel_unit_state(1) [OF this k, of ?H] j o1 o2
      show "map (\<lambda>e. row (fst (unit_state B ?H e)) k) o1 ! j =
            map (\<lambda>e. row (fst (unit_state B ?H e)) k) o2 ! j"
        by (simp add: outs_ok_def)
    qed
    with y1(3) y2(3) k show ?thesis
      by (simp add: batch_elem4 [OF y1(2)] batch_elem4 [OF y2(2)])
  qed
  with y1 y2 show ?thesis by blast
qed

lemma forward_body_rel:
  assumes v: "valid_cell (cell self) I"
    and i1: "has_shape inp1 [B, L, I]" and i2: "has_shape inp2 [B, L, I]" and t: "t < L"
    and eq: "k < B \<longrightarrow> batch_elem inp1 k = batch_elem inp2 k"
    and rr: "reset_rel B L k t reset1 reset2"
    and inv: "drv_inv self B k t s1 s2"
  shows "\<exists>s1' s2'. forward_body self inp1 reset1 t s1 = Some s1' \<and>
                   forward_body self inp2 reset2 t s2 = Some s2' \<and> drv_inv self B k (Suc t) s1' s2'"
proof -
  obtain st1 os1 where s1: "s1 = (st1, os1)" by (cases s1)
  obtain st2 os2 where s2: "s2 = (st2, os2)" by (cases s2)
  from v have pos: "0 < layers (cell self)" by (simp add: valid_cell_def)
  from inv have st: "carried_rel (cell self) B k st1 st2"
    and len: "length os1 = t" "length os2 = t"
    and old: "\<forall>j<t. has_shape (os1 ! j) [B, 1, layers (cell self), hidden_size (cell self)] \<and>
            has_shape (os2 ! j) [B, 1, layers (cell self), hidden_size (cell self)] \<and>
            (k < B \<longrightarrow> batch_elem (os1 ! j) k = batch_elem (os2 ! j) k)"
    by (simp_all add: drv_inv_def s1 s2)
  from select3_rel [OF i1 i2 t eq] obtain x1 x2 where
    x: "select inp1 1 t = Some x1" "select inp2 1 t = Some x2"
       "has_shape x1 [B, I]" "has_shape x2 [B, I]" "rows_eq B k x1 x2"
    by blast
  from cell_forward_rel [OF v st x(3,4,5)] obtain o1 o2 where
    o: "MultilayerLSTMCell_forward (cell self) x1 st1 = Some o1"
       "MultilayerLSTMCell_forward (cell self) x2 st2 = Some o2"
       "outs_ok (cell self) B o1" "outs_ok (cell self) B o2"
       "\<forall>j<layers (cell self). entry_rel B k (o1 ! j) (o2 ! j)"
    by blast
  from step_output_rel [OF o(3,4) pos o(5)] obtain y1 y2 where
    y: "step_output o1 = Some y1" "step_output o2 = Some y2"
       "has_shape y1 [B, 1, layers (cell self), hidden_size (cell self)]"
       "has_shape y2 [B, 1, layers (cell self), hidden_size (cell self)]"
       "k < B \<longrightarrow> batch_elem y1 k = batch_elem y2 k"
    by blast
  from apply_reset_rel [OF o(3,4,5) rr t] obtain c1 c2 where
    c: "apply_reset reset1 t o1 = Some c1" "apply_reset reset2 t o2 = Some c2"
       "outs_ok (cell self) B c1" "outs_ok (cell self) B c2"
       "\<forall>j<layers (cell self). entry_rel B k (c1 ! j) (c2 ! j)"
    by blast
  have b1: "forward_body self inp1 reset1 t s1 = Some (Present c1, os1 @ [y1])"
    and b2: "forward_body self inp2 reset2 t s2 = Some (Present c2, os2 @ [y2])"
    using x(1,2) o(1,2) y(1,2) c(1,2) by (simp_all add: forward_body_def s1 s2)
  have "drv_inv self B k (Suc t) (Present c1, os1 @ [y1]) (Present c2, os2 @ [y2])"
    using len old y(3,4,5) c(3,4,5)
    by (auto simp: drv_inv_def nth_append less_Suc_eq carried_rel_def outs_ok_stack_ok)
  with b1 b2 show ?thesis by blast
qed

lemma forward_steps_rel:
  assumes v: "valid_cell (cell self) I"
    and i1: "has_shape inp1 [B, L, I]" and i2: "has_shape inp2 [B, L, I]"
    and eq: "k < B \<longrightarrow> batch_elem inp1 k = batch_elem inp2 k"
    and rr: "\<forall>t<L. reset_rel B L k t reset1 reset2"
    and n: "n \<le> L"
  shows "\<exists>s1 s2. forward_steps self inp1 reset1 n = Some s1 \<and> forward_steps self inp2 reset2 n = Some s2 \<and>
           drv_inv self B k n s1 s2"
  unfolding forward_steps_def
proof (rule for_each_rel)
  show "drv_inv self B k 0 (Absent, []) (Absent, [])"
    by (simp add: drv_inv_def carried_rel_def)
next
  fix i s t
  assume "i < n" "drv_inv self B k i s t"
  with n rr show "\<exists>s' t'. forward_body self inp1 reset1 i s = Some s' \<and>
           forward_body self inp2 reset2 i t = Some t' \<and> drv_inv self B k (Suc i) s' t'"
    using forward_body_rel [OF v i1 i2 _ eq] by simp
qed

lemma reset_rel_refl: "reset_ok B L reset \<Longrightarrow> reset_rel B L B t reset reset"
  by (simp add: reset_ok_def reset_rel_def split: optional.splits)

lemma entry_rel_refl: "entry_rel B B e e"
  by (auto simp: entry_rel_def rows_eq_def split: optional.splits)

lemma carried_rel_refl: "carried_ok self B st \<Longrightarrow> carried_rel self B B st st"
  by (simp add: carried_ok_def carried_rel_def entry_rel_refl split: optional.splits)

lemma forward_steps_Suc:
  "forward_steps self inp reset (Suc n) =
     (case forward_steps self inp reset n of None \<Rightarrow> None | Some s \<Rightarrow> forward_body self inp reset n s)"
  unfolding forward_steps_def by (rule for_each_Suc)

lemma cell_forward_ok:
  assumes v: "valid_cell self I" and st: "carried_ok self B st" and x: "has_shape x [B, I]"
  shows "\<exists>hx. MultilayerLSTMCell_forward self x st = Some hx \<and> outs_ok self B hx"
  using cell_forward_rel [where k = B, OF v carried_rel_refl [OF st] x x] by (auto simp: rows_eq_def)

lemma step_exists:
  assumes v: "valid_cell (cell self) I" and i: "has_shape inp [B, L, I]"
    and r: "reset_ok B L reset" and t: "t < L"
  shows "\<exists>st os x hx out carried. step_at self inp reset t st os x hx out carried \<and>
           length os = t \<and> carried_ok (cell self) B st \<and> (0 < t \<longrightarrow> st \<noteq> Absent) \<and> has_shape x [B, I] \<and>
           outs_ok (cell self) B hx \<and> outs_ok (cell self) B carried \<and>
           has_shape out [B, 1, layers (cell self), hidden_size (cell self)]"
proof -
  have rr: "\<forall>t<L. reset_rel B L B t reset reset"
    using r by (simp add: reset_rel_refl)
  from forward_steps_rel [where k = B and n = t, OF v i i _ rr] t obtain s where
    s: "forward_steps self inp reset t = Some s" "drv_inv self B B t s s"
    by auto
  obtain st os where st: "s = (st, os)" by (cases s)
  from s(2) have c: "carried_rel (cell self) B B st st" "length os = t" "0 < t \<longrightarrow> st \<noteq> Absent"
    by (auto simp: drv_inv_def st)
  then have cok: "carried_ok (cell self) B st"
    by (auto simp: carried_rel_def carried_ok_def split: optional.splits)
  from v have pos: "0 < layers (cell self)" by (simp add: valid_cell_def)
  from select3 [OF i t] obtain x where x: "select inp 1 t = Some x" "has_shape x [B, I]"
    by blast
  from cell_forward_ok [OF v cok x(2)] obtain hx where
    hx: "MultilayerLSTMCell_forward (cell self) x st = Some hx" "outs_ok (cell self) B hx"
    by blast
  from step_output_rows [OF hx(2) pos] obtain out where
    out: "step_output hx = Some out" "has_shape out [B, 1, layers (cell self), hidden_size (cell self)]"
    by blast
  have "\<forall>j<layers (cell self). entry_rel B B (hx ! j) (hx ! j)"
    by (simp add: entry_rel_refl)
  from apply_reset_rel [OF hx(2) hx(2) this reset_rel_refl [OF r] t] obtain carried where
    ca: "apply_reset reset t hx = Some carried" "outs_ok (cell self) B carried"
    by auto
  have "forward_body self inp reset t (st, os) = Some (Present carried, os @ [out])"
    using x(1) hx(1) out(1) ca(1) by (simp add: forward_body_def)
  then have "forward_steps self inp reset (Suc t) = Some (Present carried, os @ [out])"
    using s(1) by (simp add: forward_steps_Suc st)
  with s(1) x hx out ca c(2,3) cok show ?thesis
    unfolding step_at_def st by blast
qed

lemma forward_steps_outputs:
  assumes "forward_steps self inp reset n = Some (st, os)"
    and "forward_steps self inp reset (Suc t) = Some (st', os' @ [out])" and "length os' = t" and "t < n"
  shows "os ! t = out \<and> length os = n"
  using assms(1,4)
proof (induction n arbitrary: st os)
  case 0
  then show ?case by simp
next
  case (Suc n)
  from Suc.prems(1) obtain st0 os0 where
    prev: "forward_steps self inp reset n = Some (st0, os0)"
    and body: "forward_body self inp reset n (st0, os0) = Some (st, os)"
    by (auto simp: forward_steps_Suc split: option.splits)
  from body obtain y where os: "os = os0 @ [y]"
    by (auto simp: forward_body_def bind_eq_Some_conv)
  show ?case
  proof (cases "t < n")
    case True
    from Suc.IH [OF prev True] os True show ?thesis
      by (simp add: nth_append)
  next
    case False
    with Suc.prems(2) have tn: "t = n" by simp
    with assms(2) Suc.prems(1) have eq: "os = os' @ [out]" by simp
    with assms(3) tn show ?thesis by (auto simp: nth_append)
  qed
qed

lemma layer_exists:
  assumes v: "valid_cell self I" and hx: "stack_ok self B hx" and i: "has_shape inp [B, I]"
    and l: "l < layers self"
  shows "\<exists>recent outs r h c. layer_at self inp hx l recent outs r h c \<and> length outs = l \<and>
           has_shape recent [B, if l = 0 then I else hidden_size self] \<and>
           has_shape r [B, unit_width self I l] \<and>
           has_shape h [B, hidden_size self] \<and> has_shape c [B, hidden_size self]"
proof -
  have rel: "\<forall>j<layers self. entry_rel B B (hx ! j) (hx ! j)"
    by (simp add: entry_rel_refl)
  have "\<exists>s t. for_each (cell_body self inp hx) [0..<l] (inp, []) = Some s \<and>
              for_each (cell_body self inp hx) [0..<l] (inp, []) = Some t \<and> cell_inv self B I B l s t"
  proof (rule for_each_rel)
    show "cell_inv self B I B 0 (inp, []) (inp, [])"
      using i by (simp add: cell_inv_def rows_eq_def)
  next
    fix j s t
    assume "j < l" "cell_inv self B I B j s t"
    with l show "\<exists>s' t'. cell_body self inp hx j s = Some s' \<and> cell_body self inp hx j t = Some t' \<and>
                       cell_inv self B I B (Suc j) s' t'"
      using cell_body_rel [where k = B and l = j and ?s1.0 = s and ?s2.0 = t, OF v _ hx hx rel i i]
      by (simp add: rows_eq_def)
  qed
  then obtain s where s: "for_each (cell_body self inp hx) [0..<l] (inp, []) = Some s"
    "cell_inv self B I B l s s"
    by auto
  obtain recent outs where ro: "s = (recent, outs)" by (cases s)
  from s(2) have rec: "has_shape recent [B, if l = 0 then I else hidden_size self]" and len: "length outs = l"
    by (simp_all add: cell_inv_def ro)
  from v l have ul: "l < length (lstm_cells self)" by (simp add: valid_cell_def)
  from hx l have hl: "l < length hx" by (simp add: stack_ok_def)
  from cell_body_rows [OF v l hx i rec, of outs] obtain r h c where
    b: "layer_input self inp hx l recent = Some r"
       "cell_body self inp hx l (recent, outs) = Some (h, outs @ [Present (h, c)])"
       "has_shape h [B, hidden_size self]" "has_shape c [B, hidden_size self]"
    by blast
  from layer_input_rows [OF v l hx i rec] b(1) have rs: "has_shape r [B, unit_width self I l]"
    by auto
  from b(1,2) ul hl have u: "getitem (lstm_cells self) l \<bind> (\<lambda>unit. LSTMCell_forward unit r (hx ! l)) = Some (h, c)"
    by (auto simp: cell_body_def getitem_def bind_eq_Some_conv)
  have "for_each (cell_body self inp hx) [0..<Suc l] (inp, []) = Some (h, outs @ [Present (h, c)])"
    using s(1) b(2) by (simp add: for_each_append ro)
  with s(1) b u rec rs len show ?thesis
    unfolding layer_at_def ro by blast
qed

lemma cell_body_appends:
  "cell_body self inp hx l (recent, outs) = Some (h, outs') \<Longrightarrow> \<exists>c. outs' = outs @ [Present (h, c)]"
  by (auto simp: cell_body_def bind_eq_Some_conv)

lemma cell_loop_outputs:
  assumes "for_each (cell_body self inp hx) [0..<n] (inp, []) = Some (recent, outs)"
    and "for_each (cell_body self inp hx) [0..<Suc l] (inp, []) = Some (h, outs' @ [e])"
    and "length outs' = l" and "l < n"
  shows "outs ! l = e \<and> length outs = n"
  using assms(1,4)
proof (induction n arbitrary: recent outs)
  case 0
  then show ?case by simp
next
  case (Suc n)
  from Suc.prems(1) obtain rec0 outs0 where
    prev: "for_each (cell_body self inp hx) [0..<n] (inp, []) = Some (rec0, outs0)"
    and body: "cell_body self inp hx n (rec0, outs0) = Some (recent, outs)"
    by (auto simp: for_each_append split: option.splits)
  from cell_body_appends [OF body] obtain c where os: "outs = outs0 @ [Present (recent, c)]"
    by blast
  show ?case
  proof (cases "l < n")
    case True
    from Suc.IH [OF prev True] os True show ?thesis
      by (simp add: nth_append)
  next
    case False
    with Suc.prems(2) have "l = n" by simp
    with assms(2,3) Suc.prems(1) show ?thesis
      by (auto simp: nth_append)
  qed
qed

lemma cell_forward_run:
  "MultilayerLSTMCell_forward self inp st = Some out \<longleftrightarrow>
   (\<exists>recent. for_each (cell_body self inp (case st of Absent \<Rightarrow> replicate (layers self) Absent | Present l \<Rightarrow> l))
                [0..<layers self] (inp, []) = Some (recent, out))"
  by (auto simp: MultilayerLSTMCell_forward_def bind_eq_Some_conv)

lemma demo_gate_ok:
  "gate_ok \<lparr>cell_input_size = a, cell_hidden_size = b, cell_bias = c, cell_gate = demo_gate\<rparr>"
  by (simp add: gate_ok_def demo_gate_def Let_def)

lemma init_fields:
  "hidden_size (MultilayerLSTMCell_init params I H bias Ln eli uph) = H"
  "layers (MultilayerLSTMCell_init params I H bias Ln eli uph) = Ln"
  "every_layer_input (MultilayerLSTMCell_init params I H bias Ln eli uph) = eli"
  "use_previous_higher (MultilayerLSTMCell_init params I H bias Ln eli uph) = uph"
  "length (lstm_cells (MultilayerLSTMCell_init params I H bias Ln eli uph)) = Ln"
  "cell (MultilayerLSTM_init params I H bias Ln eli uph) = MultilayerLSTMCell_init params I H bias Ln eli uph"
  by (simp_all add: MultilayerLSTMCell_init_def MultilayerLSTM_init_def)

lemma init_valid:
  assumes "0 < Ln"
    and "\<forall>l<Ln. gate_ok (lstm_cells (MultilayerLSTMCell_init params I H bias Ln eli uph) ! l)"
  shows "valid_cell (MultilayerLSTMCell_init params I H bias Ln eli uph) I"
  unfolding valid_cell_def init_fields unit_width_def
  using assms by (simp add: MultilayerLSTMCell_init_def input_sizes_nth)

lemma demo_init_gates:
  "\<forall>l<Ln. gate_ok (lstm_cells (MultilayerLSTMCell_init (\<lambda>i. demo_gate) I H bias Ln eli uph) ! l)"
  by (simp add: MultilayerLSTMCell_init_def demo_gate_ok)

lemma apply_reset_length:
  assumes "apply_reset reset t hx = Some c"
  shows "length c = length hx"
proof -
  have loop: "for_each (reset_entry rt) xs s = Some s' \<Longrightarrow> length s' = length s" for rt xs s s'
  proof (induction xs arbitrary: s)
    case Nil
    then show ?case by simp
  next
    case (Cons x xs)
    from Cons.prems obtain s1 where s1: "reset_entry rt x s = Some s1" "for_each (reset_entry rt) xs s1 = Some s'"
      by (auto split: option.splits)
    from s1(1) have "length s1 = length s"
      by (cases x) (auto simp: reset_entry_def bind_eq_Some_conv split: optional.splits)
    with Cons.IH [OF s1(2)] show ?case by simp
  qed
  from assms show ?thesis
    by (auto simp: apply_reset_def bind_eq_Some_conv dest: loop split: optional.splits if_splits)
qed

lemma cell_forward_trace:
  assumes v: "valid_cell self I" and st: "carried_ok self B st" and i: "has_shape inp [B, I]"
    and l: "l < layers self"
    and hx: "hx = (case st of Absent \<Rightarrow> replicate (layers self) Absent | Present xs \<Rightarrow> xs)"
  shows "\<exists>out recent outs r h c. MultilayerLSTMCell_forward self inp st = Some out \<and>
           outs_ok self B out \<and> layer_at self inp hx l recent outs r h c \<and> length outs = l \<and>
           out ! l = Present (h, c) \<and>
           has_shape recent [B, if l = 0 then I else hidden_size self] \<and>
           has_shape r [B, unit_width self I l] \<and>
           has_shape h [B, hidden_size self] \<and> has_shape c [B, hidden_size self]"
proof -
  from st have sok: "stack_ok self B hx"
    by (auto simp: hx carried_ok_def stack_ok_replicate split: optional.splits)
  from cell_forward_ok [OF v st i] obtain out where
    out: "MultilayerLSTMCell_forward self inp st = Some out" "outs_ok self B out"
    by blast
  then obtain rec where run: "for_each (cell_body self inp hx) [0..<layers self] (inp, []) = Some (rec, out)"
    by (auto simp: cell_forward_run hx)
  from layer_exists [OF v sok i l] obtain recent outs r h c where
    la: "layer_at self inp hx l recent outs r h c" "length outs = l"
      "has_shape recent [B, if l = 0 then I else hidden_size self]"
      "has_shape r [B, unit_width self I l]"
      "has_shape h [B, hidden_size self]" "has_shape c [B, hidden_size self]"
    by blast
  from la(1) have "for_each (cell_body self inp hx) [0..<Suc l] (inp, []) = Some (h, outs @ [Present (h, c)])"
    by (simp add: layer_at_def)
  from cell_loop_outputs [OF run this la(2) l] have "out ! l = Present (h, c)"
    by simp
  with out la show ?thesis by blast
qed

text \<open>
  C9: for a cell as \<^verbatim>\<open>__init__\<close> builds it, an input of shape \<open>[B, I]\<close> and a previous stack
  that is absent or has one entry per layer (each \<^verbatim>\<open>None\<close> or a pair of \<open>[B, H]\<close> tensors),
  \<^verbatim>\<open>MultilayerLSTMCell.forward\<close> returns a list of exactly \<open>layers\<close> pairs; entry \<open>l\<close> is the
  pair that the unit of layer \<open>l\<close> returns from the previous state of layer \<open>l\<close>, and both its
  tensors have shape \<open>[B, H]\<close>. The reset of the driver keeps the length, so the length is
  the same at every timestep.
\<close>

theorem cell_forward_returns_stack:
  assumes self: "self = MultilayerLSTMCell_init params I H bias Ln eli uph"
    and pos: "0 < Ln"
    and gates: "\<forall>l<Ln. gate_ok (lstm_cells self ! l)"
    and inp: "has_shape inp [B, I]"
    and hx: "carried_ok self B hx"
  shows "\<exists>out. MultilayerLSTMCell_forward self inp hx = Some out \<and> length out = Ln \<and>
           (\<forall>l<Ln. \<exists>h c r. out ! l = Present (h, c) \<and> has_shape h [B, H] \<and> has_shape c [B, H] \<and>
               LSTMCell_forward (lstm_cells self ! l) r
                 ((case hx of Absent \<Rightarrow> replicate Ln Absent | Present st \<Rightarrow> st) ! l) = Some (h, c)) \<and>
           (\<forall>reset t carried. apply_reset reset t out = Some carried \<longrightarrow> length carried = Ln)"
proof -
  from pos gates have v: "valid_cell self I"
    unfolding self by (rule init_valid)
  have f: "layers self = Ln" "hidden_size self = H" "length (lstm_cells self) = Ln"
    by (simp_all add: self init_fields)
  let ?hx = "case hx of Absent \<Rightarrow> replicate (layers self) Absent | Present st \<Rightarrow> st"
  from cell_forward_ok [OF v hx inp] obtain out where
    out: "MultilayerLSTMCell_forward self inp hx = Some out" "outs_ok self B out"
    by blast
  have hxeq: "?hx = (case hx of Absent \<Rightarrow> replicate Ln Absent | Present st \<Rightarrow> st)"
    unfolding f by (rule refl)
  have each: "\<exists>h c r. out ! l = Present (h, c) \<and> has_shape h [B, H] \<and> has_shape c [B, H] \<and>
               LSTMCell_forward (lstm_cells self ! l) r
                 ((case hx of Absent \<Rightarrow> replicate Ln Absent | Present st \<Rightarrow> st) ! l) = Some (h, c)"
    if l: "l < Ln" for l
  proof -
    from l have "l < layers self" by (simp add: f)
    from cell_forward_trace [OF v hx inp this refl] out(1) obtain recent outs r h c where
      t: "layer_at self inp ?hx l recent outs r h c" "out ! l = Present (h, c)"
         "has_shape h [B, hidden_size self]" "has_shape c [B, hidden_size self]"
      by auto
    from t(1) l have "LSTMCell_forward (lstm_cells self ! l) r (?hx ! l) = Some (h, c)"
      by (simp add: layer_at_def getitem_def f)
    with t(2-4) show ?thesis
      unfolding hxeq f by blast
  qed
  from out(2) have len: "length out = Ln" by (simp add: outs_ok_def f)
  have keep: "\<forall>reset t carried. apply_reset reset t out = Some carried \<longrightarrow> length carried = Ln"
    using apply_reset_length len by blast
  from out(1) len each keep show ?thesis
    by blast
qed

theorem cell_forward_returns_stack_witness:
  "\<exists>out. MultilayerLSTMCell_forward (MultilayerLSTMCell_init (\<lambda>i. demo_gate) 1 1 True 2 True True)
            (Tensor [2, 1] [1, 2]) Absent = Some out \<and> length out = 2 \<and>
         (\<exists>h c. out ! 1 = Present (h, c) \<and> has_shape h [2, 1] \<and> has_shape c [2, 1])"
proof -
  have i: "has_shape (Tensor [2, 1] [1, 2]) [2, 1]"
    by (simp add: has_shape_def wf_tensor_def)
  have c: "carried_ok (MultilayerLSTMCell_init (\<lambda>i. demo_gate) 1 1 True 2 True True) 2 Absent"
    by (simp add: carried_ok_def)
  have p: "(0::nat) < 2" by simp
  from cell_forward_returns_stack [OF refl p demo_init_gates i c] obtain out where
    o: "MultilayerLSTMCell_forward (MultilayerLSTMCell_init (\<lambda>i. demo_gate) 1 1 True 2 True True)
          (Tensor [2, 1] [1, 2]) Absent = Some out" "length out = 2"
       "\<forall>l<2. \<exists>h c r. out ! l = Present (h, c) \<and> has_shape h [2, 1] \<and> has_shape c [2, 1] \<and>
               LSTMCell_forward (lstm_cells (MultilayerLSTMCell_init (\<lambda>i. demo_gate) 1 1 True 2 True True) ! l) r
                 ((case Absent of Absent \<Rightarrow> replicate 2 Absent | Present st \<Rightarrow> st) ! l) = Some (h, c)"
    by blast
  have "(1::nat) < 2" by simp
  with o(3) obtain h c where "out ! 1 = Present (h, c)" "has_shape h [2, 1]" "has_shape c [2, 1]"
    by blast
  with o(1,2) show ?thesis by blast
qed

text \<open>
  C5: the driver's loop starts from an absent stack. With \<^verbatim>\<open>use_previous_higher\<close> set and no
  previous stack, the input \<open>r\<close> that the cell feeds to the unit of a layer \<open>l\<close> below the topmost
  one is, for every batch element, the running signal (followed by the raw input when
  \<^verbatim>\<open>every_layer_input\<close> is set and \<open>l > 0\<close>) followed by exactly \<open>H\<close> zeros: the component that
  stands for the hidden state of layer \<open>l + 1\<close> at the previous timestep.
\<close>

theorem first_step_higher_state_is_zero:
  assumes self: "self = MultilayerLSTMCell_init params I H bias Ln eli uph"
    and gates: "\<forall>l<Ln. gate_ok (lstm_cells self ! l)"
    and inp: "has_shape inp [B, I]"
    and uph: "uph" and l: "l + 1 < Ln"
  shows "forward_steps m inp3 reset 0 = Some (Absent, []) \<and>
         (\<exists>out recent outs r h c. MultilayerLSTMCell_forward self inp Absent = Some out \<and>
            layer_at self inp (replicate Ln Absent) l recent outs r h c \<and> out ! l = Present (h, c) \<and>
            has_shape r [B, unit_width self I l] \<and>
            (\<forall>b<B. row r b = row recent b @ (if 0 < l \<and> eli then row inp b else []) @ replicate H 0))"
proof -
  from l have pos: "0 < Ln" by simp
  from pos gates have v: "valid_cell self I"
    unfolding self by (rule init_valid)
  have f: "layers self = Ln" "hidden_size self = H" "use_previous_higher self = uph"
    "every_layer_input self = eli"
    by (simp_all add: self init_fields)
  from l have ll: "l < layers self" by (simp add: f)
  have c: "carried_ok self B Absent" by (simp add: carried_ok_def)
  have sok: "stack_ok self B (replicate (layers self) Absent)" by (rule stack_ok_replicate)
  from cell_forward_trace [OF v c inp ll, of "replicate (layers self) Absent"]
  obtain out recent outs r h c where
    t: "MultilayerLSTMCell_forward self inp Absent = Some out"
       "layer_at self inp (replicate (layers self) Absent) l recent outs r h c" "out ! l = Present (h, c)"
       "has_shape recent [B, if l = 0 then I else hidden_size self]"
       "has_shape r [B, unit_width self I l]"
    by auto
  from t(2) have li: "layer_input self inp (replicate (layers self) Absent) l recent = Some r"
    by (simp add: layer_at_def)
  from layer_input_rows [OF v ll sok inp t(4)] li
  have rows: "\<forall>k<B. row r k =
              row recent k @ (if 0 < l \<and> every_layer_input self then row inp k else []) @
              (if Suc l < layers self \<and> use_previous_higher self
               then row (fst (unit_state B (hidden_size self) (replicate (layers self) Absent ! Suc l))) k else [])"
    by auto
  have "row r b = row recent b @ (if 0 < l \<and> eli then row inp b else []) @ replicate H 0" if b: "b < B" for b
  proof -
    from l have "replicate (layers self) Absent ! Suc l = (Absent :: layer_state)"
      by (simp add: f)
    then have "row (fst (unit_state B (hidden_size self) (replicate (layers self) Absent ! Suc l))) b = replicate H 0"
      using b by (simp add: unit_state_def zeros2 f)
    with rows b l uph show ?thesis
      by (simp add: f)
  qed
  then have "\<forall>b<B. row r b = row recent b @ (if 0 < l \<and> eli then row inp b else []) @ replicate H 0"
    by blast
  moreover have "forward_steps m inp3 reset 0 = Some (Absent, [])"
    by (simp add: forward_steps_def)
  moreover note t(1,3,5) t(2) [unfolded f]
  ultimately show ?thesis
    by blast
qed

theorem first_step_higher_state_is_zero_witness:
  "\<exists>out recent outs r h c.
     MultilayerLSTMCell_forward (MultilayerLSTMCell_init (\<lambda>i. demo_gate) 1 1 True 2 True True)
       (Tensor [2, 1] [1, 2]) Absent = Some out \<and>
     layer_at (MultilayerLSTMCell_init (\<lambda>i. demo_gate) 1 1 True 2 True True) (Tensor [2, 1] [1, 2])
       (replicate 2 Absent) 0 recent outs r h c \<and>
     out ! 0 = Present (h, c) \<and> row r 1 = row recent 1 @ replicate 1 0"
proof -
  have i: "has_shape (Tensor [2, 1] [1, 2]) [2, 1]"
    by (simp add: has_shape_def wf_tensor_def)
  have "(0::nat) + 1 < 2" by simp
  from first_step_higher_state_is_zero [OF refl demo_init_gates i TrueI this]
  obtain out recent outs r h c where
    o: "MultilayerLSTMCell_forward (MultilayerLSTMCell_init (\<lambda>i. demo_gate) 1 1 True 2 True True)
          (Tensor [2, 1] [1, 2]) Absent = Some out"
       "layer_at (MultilayerLSTMCell_init (\<lambda>i. demo_gate) 1 1 True 2 True True) (Tensor [2, 1] [1, 2])
          (replicate 2 Absent) 0 recent outs r h c"
       "out ! 0 = Present (h, c)"
       "\<forall>b<2. row r b = row recent b @ (if 0 < (0::nat) \<and> True then row (Tensor [2, 1] [1, 2]) b else []) @ replicate 1 0"
    by blast
  have "(1::nat) < 2" by simp
  with o(4) have "row r 1 = row recent 1 @ replicate 1 0"
    by simp
  with o(1-3) show ?thesis by blast
qed

lemma chunk_concat_list:
  assumes "\<And>x. x \<in> set ts \<Longrightarrow> length (g x) = m" and "t < length ts"
  shows "chunk m t (concat (map g ts)) = g (ts ! t)"
proof -
  have "map g ts = map (\<lambda>i. g (ts ! i)) [0..<length ts]"
    by (rule nth_equalityI) simp_all
  then have "chunk m t (concat (map g ts)) = chunk m t (concat (map (\<lambda>i. g (ts ! i)) [0..<length ts]))"
    by simp
  also have "\<dots> = g (ts ! t)"
    using assms by (intro chunk_concat_uniform) simp_all
  finally show ?thesis .
qed

lemma cat_outputs:
  assumes ne: "os \<noteq> []"
    and sh: "\<And>y. y \<in> set os \<Longrightarrow> has_shape y [B, 1, N, H]"
  shows "\<exists>out. cat os 1 = Some out \<and> has_shape out [B, length os, N, H] \<and>
           (\<forall>b<B. \<forall>t<length os. chunk (N * H) (b * length os + t) (elems out) = chunk (N * H) b (elems (os ! t)))"
proof -
  have sh': "\<And>y. y \<in> set os \<Longrightarrow> has_shape y ([B] @ 1 # [N, H])"
    using sh by simp
  from cat_same [OF ne sh']
  have "\<exists>out. cat os 1 = Some out \<and> has_shape out [B, length os, N, H] \<and>
          (\<forall>k<B. chunk (length os * (N * H)) k (elems out) =
              concat (map (\<lambda>y. chunk (N * H) k (elems y)) os))"
    by simp
  then obtain out where out: "cat os 1 = Some out" "has_shape out [B, length os, N, H]"
    "\<forall>k<B. chunk (length os * (N * H)) k (elems out) = concat (map (\<lambda>y. chunk (N * H) k (elems y)) os)"
    by blast
  have "chunk (N * H) (b * length os + t) (elems out) = chunk (N * H) b (elems (os ! t))"
    if b: "b < B" and t: "t < length os" for b t
  proof -
    have len: "length (chunk (N * H) b (elems y)) = N * H" if "y \<in> set os" for y
    proof -
      from b have "Suc b \<le> B" by simp
      then have "Suc b * (N * H) \<le> B * (N * H)" by (rule mult_le_mono1)
      with sh [OF that] show ?thesis
        by (simp add: length_chunk has_shapeD)
    qed
    have "chunk (N * H) (b * length os + t) (elems out) =
          chunk (N * H) t (chunk (length os * (N * H)) b (elems out))"
      by (simp add: chunk_chunk [OF t])
    also have "\<dots> = chunk (N * H) t (concat (map (\<lambda>y. chunk (N * H) b (elems y)) os))"
      using out(3) b by simp
    also have "\<dots> = chunk (N * H) b (elems (os ! t))"
      using len t by (rule chunk_concat_list)
    finally show ?thesis .
  qed
  with out(1,2) show ?thesis by blast
qed

lemma forward_result:
  assumes v: "valid_cell (cell self) I" and i: "has_shape inp [B, L, I]"
    and r: "reset_ok B L reset" and L: "0 < L"
  shows "\<exists>st os out. forward_steps self inp reset L = Some (st, os) \<and> length os = L \<and>
           MultilayerLSTM_forward self inp reset = Some out \<and>
           has_shape out [B, L, layers (cell self), hidden_size (cell self)] \<and>
           (\<forall>b<B. \<forall>t<L. chunk (layers (cell self) * hidden_size (cell self)) (b * L + t) (elems out) =
                         chunk (layers (cell self) * hidden_size (cell self)) b (elems (os ! t)))"
proof -
  have rr: "\<forall>t<L. reset_rel B L B t reset reset"
    using r by (simp add: reset_rel_refl)
  from forward_steps_rel [where k = B and n = L, OF v i i _ rr] obtain s where
    s: "forward_steps self inp reset L = Some s" "drv_inv self B B L s s"
    by auto
  obtain st os where st: "s = (st, os)" by (cases s)
  from s(2) have len: "length os = L"
    and shp: "\<forall>j<L. has_shape (os ! j) [B, 1, layers (cell self), hidden_size (cell self)]"
    by (simp_all add: drv_inv_def st)
  from len L have ne: "os \<noteq> []" by auto
  have "\<And>y. y \<in> set os \<Longrightarrow> has_shape y [B, 1, layers (cell self), hidden_size (cell self)]"
    using shp len by (auto simp: in_set_conv_nth)
  from cat_outputs [OF ne this] obtain out where
    out: "cat os 1 = Some out" "has_shape out [B, length os, layers (cell self), hidden_size (cell self)]"
      "\<forall>b<B. \<forall>t<length os. chunk (layers (cell self) * hidden_size (cell self)) (b * length os + t) (elems out) =
          chunk (layers (cell self) * hidden_size (cell self)) b (elems (os ! t))"
    by blast
  have "tensor_size inp 1 = Some L"
    using i by (simp add: tensor_size_def getitem_def has_shapeD)
  then have "MultilayerLSTM_forward self inp reset = Some out"
    using s(1) out(1) by (simp add: MultilayerLSTM_forward_def forward_steps_def st)
  with s(1) out(2,3) len show ?thesis
    unfolding st by auto
qed

lemma step_output_layer:
  assumes ok: "outs_ok self B hx" and y: "step_output hx = Some y" and l: "l < layers self" and b: "b < B"
  shows "\<exists>h c. hx ! l = Present (h, c) \<and> has_shape h [B, hidden_size self] \<and> has_shape c [B, hidden_size self] \<and>
           chunk (hidden_size self) l (chunk (layers self * hidden_size self) b (elems y)) = row h b"
proof -
  let ?H = "hidden_size self"
  let ?g = "\<lambda>e. row (fst (unit_state B ?H e)) b"
  from l have pos: "0 < layers self" by simp
  from step_output_rows [OF ok pos] y
  have rows: "chunk (layers self * ?H) b (elems y) = concat (map ?g hx)"
    using b by auto
  from outs_okD [OF ok l] obtain h c where
    e: "hx ! l = Present (h, c)" "has_shape h [B, ?H]" "has_shape c [B, ?H]"
    by blast
  have len: "length (?g x) = ?H" if "x \<in> set hx" for x
  proof -
    from that ok obtain j where "j < layers self" "x = hx ! j"
      by (auto simp: in_set_conv_nth outs_ok_def)
    with outs_okD [OF ok this(1)] obtain h' c' where "x = Present (h', c')" "has_shape h' [B, ?H]"
      by auto
    with b show ?thesis
      by (simp add: unit_state_def length_row)
  qed
  from ok l have "l < length hx" by (simp add: outs_ok_def)
  with len have "chunk ?H l (concat (map ?g hx)) = ?g (hx ! l)"
    by (rule chunk_concat_list)
  with rows e show ?thesis
    by (simp add: unit_state_def)
qed

lemma forward_content:
  assumes v: "valid_cell (cell self) I" and i: "has_shape inp [B, L, I]"
    and r: "reset_ok B L reset" and t: "t < L"
  shows "\<exists>out st os x hx y carried.
           MultilayerLSTM_forward self inp reset = Some out \<and>
           has_shape out [B, L, layers (cell self), hidden_size (cell self)] \<and>
           step_at self inp reset t st os x hx y carried \<and>
           outs_ok (cell self) B hx \<and> outs_ok (cell self) B carried \<and>
           carried_ok (cell self) B st \<and> has_shape x [B, I] \<and>
           (\<forall>l<layers (cell self). \<exists>h c. hx ! l = Present (h, c) \<and>
               (\<forall>b<B. chunk (hidden_size (cell self)) ((b * L + t) * layers (cell self) + l) (elems out) = row h b))"
proof -
  let ?N = "layers (cell self)" and ?H = "hidden_size (cell self)"
  from t have L: "0 < L" by simp
  from forward_result [OF v i r L] obtain st' os out where
    fr: "forward_steps self inp reset L = Some (st', os)" "length os = L"
      "MultilayerLSTM_forward self inp reset = Some out" "has_shape out [B, L, ?N, ?H]"
      "\<forall>b<B. \<forall>t<L. chunk (?N * ?H) (b * L + t) (elems out) = chunk (?N * ?H) b (elems (os ! t))"
    by blast
  from step_exists [OF v i r t] obtain st ost x hx y carried where
    sa: "step_at self inp reset t st ost x hx y carried" "length ost = t"
      "carried_ok (cell self) B st" "has_shape x [B, I]"
      "outs_ok (cell self) B hx" "outs_ok (cell self) B carried"
    by blast
  from sa(1) have nxt: "forward_steps self inp reset (Suc t) = Some (Present carried, ost @ [y])"
    and so: "step_output hx = Some y"
    by (simp_all add: step_at_def)
  from forward_steps_outputs [OF fr(1) nxt sa(2) t] have ot: "os ! t = y" by simp
  have "\<exists>h c. hx ! l = Present (h, c) \<and>
          (\<forall>b<B. chunk ?H ((b * L + t) * ?N + l) (elems out) = row h b)" if l: "l < ?N" for l
  proof -
    from outs_okD [OF sa(5) l] obtain h c where e: "hx ! l = Present (h, c)" by blast
    have "chunk ?H ((b * L + t) * ?N + l) (elems out) = row h b" if b: "b < B" for b
    proof -
      have "chunk ?H ((b * L + t) * ?N + l) (elems out) = chunk ?H l (chunk (?N * ?H) (b * L + t) (elems out))"
        by (simp add: chunk_chunk [OF l])
      also have "\<dots> = chunk ?H l (chunk (?N * ?H) b (elems y))"
        using fr(5) b t ot by simp
      also have "\<dots> = row h b"
        using step_output_layer [OF sa(5) so l b] e by auto
      finally show ?thesis .
    qed
    with e show ?thesis by blast
  qed
  with fr(3,4) sa show ?thesis by blast
qed

text \<open>
  C3: for a driver as \<^verbatim>\<open>__init__\<close> builds it, an input of shape \<open>[B, L, I]\<close> with \<open>L \<ge> 1\<close> and a
  reset signal that is absent or of shape \<open>[B, L]\<close>, \<^verbatim>\<open>MultilayerLSTM.forward\<close> returns a tensor
  of shape exactly \<open>[B, L, layers, H]\<close>, and its block at batch element \<open>b\<close>, timestep \<open>t\<close> and
  layer \<open>l\<close> is row \<open>b\<close> of the hidden tensor that the cell returns for layer \<open>l\<close> at timestep \<open>t\<close>.
\<close>

theorem forward_output_shape:
  assumes self: "self = MultilayerLSTM_init params I H bias Ln eli uph"
    and pos: "0 < Ln"
    and gates: "\<forall>l<Ln. gate_ok (lstm_cells (cell self) ! l)"
    and inp: "has_shape inp [B, L, I]" and L: "0 < L"
    and reset: "reset_ok B L reset"
  shows "\<exists>out. MultilayerLSTM_forward self inp reset = Some out \<and> has_shape out [B, L, Ln, H] \<and>
           (\<forall>t<L. \<exists>st os x hx y carried. step_at self inp reset t st os x hx y carried \<and>
               (\<forall>l<Ln. \<exists>h c. hx ! l = Present (h, c) \<and>
                   (\<forall>b<B. chunk H ((b * L + t) * Ln + l) (elems out) = row h b)))"
proof -
  have c: "cell self = MultilayerLSTMCell_init params I H bias Ln eli uph"
    by (simp add: self init_fields)
  from pos gates have v: "valid_cell (cell self) I"
    unfolding c by (rule init_valid)
  have f: "layers (cell self) = Ln" "hidden_size (cell self) = H"
    by (simp_all add: c init_fields)
  from forward_content [OF v inp reset L] obtain out where
    out: "MultilayerLSTM_forward self inp reset = Some out" "has_shape out [B, L, Ln, H]"
    unfolding f by blast
  have "\<exists>st os x hx y carried. step_at self inp reset t st os x hx y carried \<and>
               (\<forall>l<Ln. \<exists>h c. hx ! l = Present (h, c) \<and>
                   (\<forall>b<B. chunk H ((b * L + t) * Ln + l) (elems out) = row h b))" if t: "t < L" for t
  proof -
    from forward_content [OF v inp reset t] obtain out' st os x hx y carried where
      fc: "MultilayerLSTM_forward self inp reset = Some out'"
        "step_at self inp reset t st os x hx y carried"
        "\<forall>l<Ln. \<exists>h c. hx ! l = Present (h, c) \<and>
            (\<forall>b<B. chunk H ((b * L + t) * Ln + l) (elems out') = row h b)"
      unfolding f by blast
    from fc(1) out(1) have "out' = out" by simp
    with fc(2,3) show ?thesis by blast
  qed
  with out show ?thesis by blast
qed

theorem forward_output_shape_witness:
  "\<exists>out. MultilayerLSTM_forward (MultilayerLSTM_init (\<lambda>i. demo_gate) 1 1 True 2 True True)
            (Tensor [2, 2, 1] [1, 2, 3, 4]) (Present (Tensor [2, 2] [0, 1, 0, 0])) = Some out \<and>
         has_shape out [2, 2, 2, 1]"
proof -
  have i: "has_shape (Tensor [2, 2, 1] [1, 2, 3, 4]) [2, 2, 1]"
    by (simp add: has_shape_def wf_tensor_def)
  have r: "reset_ok 2 2 (Present (Tensor [2, 2] [0, 1, 0, 0]))"
    by (simp add: reset_ok_def has_shape_def wf_tensor_def)
  have p: "(0::nat) < 2" by simp
  have g: "\<forall>l<2. gate_ok (lstm_cells (cell (MultilayerLSTM_init (\<lambda>i. demo_gate) 1 1 True 2 True True)) ! l)"
    using demo_init_gates [of 2 1 1 True True True] by (simp add: init_fields)
  from forward_output_shape [OF refl p g i p r] show ?thesis
    by blast
qed

lemma apply_reset_column:
  assumes r: "has_shape r [B, L]" and r': "has_shape r' [B, L]" and t: "t < L"
    and eq: "\<forall>b<B. entry2 r' b t = entry2 r b t"
  shows "apply_reset (Present r') t hx = apply_reset (Present r) t hx"
proof -
  have "map (\<lambda>b. entry2 r' b t) [0..<B] = map (\<lambda>b. entry2 r b t) [0..<B]"
    using eq by simp
  with reset_column [OF r t] reset_column [OF r' t]
  have "select r' 1 t \<bind> (\<lambda>s. unsqueeze s 1) = select r 1 t \<bind> (\<lambda>s. unsqueeze s 1)"
    by simp
  then have "(select r' 1 t \<bind> (\<lambda>s. unsqueeze s 1)) \<bind>
               (\<lambda>reset_t. if any_gt reset_t (1 / 10 ^ 6)
                  then for_each (reset_entry reset_t) (enumerate 0 hx) hx else Some hx) =
             (select r 1 t \<bind> (\<lambda>s. unsqueeze s 1)) \<bind>
               (\<lambda>reset_t. if any_gt reset_t (1 / 10 ^ 6)
                  then for_each (reset_entry reset_t) (enumerate 0 hx) hx else Some hx)"
    by (rule arg_cong)
  then show ?thesis
    by (simp add: apply_reset_def)
qed

lemma forward_steps_reset_cong:
  assumes r: "has_shape r [B, L]" and r': "has_shape r' [B, L]" and n: "n \<le> L"
    and eq: "\<forall>t<n. \<forall>b<B. entry2 r' b t = entry2 r b t"
  shows "forward_steps self inp (Present r') n = forward_steps self inp (Present r) n"
  using n eq
proof (induction n)
  case 0
  show ?case by (simp add: forward_steps_def)
next
  case (Suc n)
  then have prev: "forward_steps self inp (Present r') n = forward_steps self inp (Present r) n"
    by simp
  from Suc.prems have "n < L" "\<forall>b<B. entry2 r' b n = entry2 r b n"
    by simp_all
  from apply_reset_column [OF r r' this]
  have "forward_body self inp (Present r') n s = forward_body self inp (Present r) n s" for s
    by (simp add: forward_body_def split_beta)
  then have fb: "forward_body self inp (Present r') n = forward_body self inp (Present r) n"
    by (rule ext)
  show ?case
    unfolding forward_steps_Suc prev fb by (rule refl)
qed

text \<open>
  C10: when a reset of shape \<open>[B, L]\<close> is supplied, the stack \<open>carried\<close> that timestep \<open>t\<close> hands to
  timestep \<open>t + 1\<close> is obtained from the stack \<open>hx\<close> that the cell has just returned as follows.
  If some batch element has \<^verbatim>\<open>reset[:, t] > 1e-6\<close>, every layer's hidden and cell tensor is
  multiplied, in every row \<open>b\<close>, by \<open>1 - reset[b, t]\<close>, also in the rows whose reset is at or
  below the threshold; if no element exceeds the threshold, \<open>carried\<close> is \<open>hx\<close> itself.
\<close>

theorem reset_scales_carried_state:
  assumes self: "self = MultilayerLSTM_init params I H bias Ln eli uph"
    and pos: "0 < Ln"
    and gates: "\<forall>l<Ln. gate_ok (lstm_cells (cell self) ! l)"
    and inp: "has_shape inp [B, L, I]"
    and r: "has_shape r [B, L]" and t: "t < L"
  shows "\<exists>st os x hx y carried. step_at self inp (Present r) t st os x hx y carried \<and>
           length hx = Ln \<and> length carried = Ln \<and>
           ((\<exists>b<B. 1 / 10 ^ 6 < entry2 r b t) \<longrightarrow>
              (\<forall>l<Ln. \<exists>h c h' c'. hx ! l = Present (h, c) \<and> carried ! l = Present (h', c') \<and>
                 (\<forall>b<B. row h' b = map (\<lambda>v. v * (1 - entry2 r b t)) (row h b) \<and>
                        row c' b = map (\<lambda>v. v * (1 - entry2 r b t)) (row c b)))) \<and>
           ((\<forall>b<B. \<not> 1 / 10 ^ 6 < entry2 r b t) \<longrightarrow> carried = hx)"
proof -
  have c: "cell self = MultilayerLSTMCell_init params I H bias Ln eli uph"
    by (simp add: self init_fields)
  from pos gates have v: "valid_cell (cell self) I"
    unfolding c by (rule init_valid)
  have f: "layers (cell self) = Ln" "hidden_size (cell self) = H"
    by (simp_all add: c init_fields)
  have ro: "reset_ok B L (Present r)"
    using r by (simp add: reset_ok_def)
  from forward_content [OF v inp ro t] obtain st os x hx y carried where
    sa: "step_at self inp (Present r) t st os x hx y carried"
      "outs_ok (cell self) B hx" "outs_ok (cell self) B carried"
    by blast
  from sa(1) have ar: "apply_reset (Present r) t hx = Some carried"
    by (simp add: step_at_def)
  from apply_reset_rows [OF sa(2) r t] ar
  have sc: "(\<exists>b<B. 1 / 10 ^ 6 < entry2 r b t) \<longrightarrow>
              (\<forall>l<Ln. \<exists>h c h' c'. hx ! l = Present (h, c) \<and> carried ! l = Present (h', c') \<and>
                 (\<forall>b<B. row h' b = map (\<lambda>v. v * (1 - entry2 r b t)) (row h b) \<and>
                        row c' b = map (\<lambda>v. v * (1 - entry2 r b t)) (row c b)))"
    and same: "(\<forall>b<B. \<not> 1 / 10 ^ 6 < entry2 r b t) \<longrightarrow> carried = hx"
    unfolding f by auto
  from sa(2,3) have "length hx = Ln" "length carried = Ln"
    by (simp_all add: outs_ok_def f)
  with sa(1) sc same show ?thesis
    by blast
qed

lemmas eval_defs = forward_steps_def forward_body_def MultilayerLSTMCell_forward_def cell_body_def
  layer_input_def LSTMCell_forward_def MultilayerLSTM_init_def MultilayerLSTMCell_init_def input_sizes_def
  select_def unsqueeze_def cat_def chunk_def getitem_def tensor_size_def new_zeros_def row_def
  step_output_def hidden_view_def apply_reset_def reset_entry_def mul_def bdim_def at2_def rsub_def any_gt_def
  demo_gate_def MultilayerLSTM_forward_def entry2_def

lemma demo_lstm_gates:
  "\<forall>l<Ln. gate_ok (lstm_cells (cell (MultilayerLSTM_init (\<lambda>i. demo_gate) I H bias Ln eli uph)) ! l)"
  using demo_init_gates [of Ln I H bias eli uph] by (simp add: init_fields)

theorem reset_scales_carried_state_witness:
  "\<exists>st os x hx y carried h c h' c'.
     step_at (MultilayerLSTM_init (\<lambda>i. demo_gate) 1 1 True 2 True True) (Tensor [2, 2, 1] [1, 2, 3, 4])
       (Present (Tensor [2, 2] [0, 0, 1, 0])) 0 st os x hx y carried \<and>
     hx ! 1 = Present (h, c) \<and> carried ! 1 = Present (h', c') \<and>
     row h' 0 = map (\<lambda>v. v * (1 - 0)) (row h 0) \<and> row h' 1 = map (\<lambda>v. v * (1 - 1)) (row h 1)"
proof -
  let ?r = "Tensor [2, 2] [0, 0, 1, 0]"
  have i: "has_shape (Tensor [2, 2, 1] [1, 2, 3, 4]) [2, 2, 1]"
    by (simp add: has_shape_def wf_tensor_def)
  have r: "has_shape ?r [2, 2]"
    by (simp add: has_shape_def wf_tensor_def)
  have p: "(0::nat) < 2" by simp
  have e: "entry2 ?r 0 0 = 0" "entry2 ?r 1 0 = 1"
    by (simp_all add: entry2_def)
  have g: "\<exists>b<2. 1 / 10 ^ 6 < entry2 ?r b 0"
    using e(2) by (intro exI [of _ 1]) simp
  from reset_scales_carried_state [where params = "\<lambda>i. demo_gate" and H = 1 and bias = True and eli = True
      and uph = True, OF refl p demo_lstm_gates i r p] g
  obtain st os x hx y carried where
    s: "step_at (MultilayerLSTM_init (\<lambda>i. demo_gate) 1 1 True 2 True True) (Tensor [2, 2, 1] [1, 2, 3, 4])
          (Present ?r) 0 st os x hx y carried"
       "\<forall>l<2. \<exists>h c h' c'. hx ! l = Present (h, c) \<and> carried ! l = Present (h', c') \<and>
                 (\<forall>b<2. row h' b = map (\<lambda>v. v * (1 - entry2 ?r b 0)) (row h b) \<and>
                        row c' b = map (\<lambda>v. v * (1 - entry2 ?r b 0)) (row c b))"
    by blast
  have "(1::nat) < 2" by simp
  with s(2) obtain h c h' c' where
    l: "hx ! 1 = Present (h, c)" "carried ! 1 = Present (h', c')"
       "\<forall>b<2. row h' b = map (\<lambda>v. v * (1 - entry2 ?r b 0)) (row h b) \<and>
                        row c' b = map (\<lambda>v. v * (1 - entry2 ?r b 0)) (row c b)"
    by blast
  from l(3) p have "row h' 0 = map (\<lambda>v. v * (1 - entry2 ?r 0 0)) (row h 0)" by blast
  moreover from l(3) \<open>(1::nat) < 2\<close> have "row h' 1 = map (\<lambda>v. v * (1 - entry2 ?r 1 0)) (row h 1)" by blast
  ultimately have "row h' 0 = map (\<lambda>v. v * (1 - 0)) (row h 0)" "row h' 1 = map (\<lambda>v. v * (1 - 1)) (row h 1)"
    unfolding e by simp_all
  with s(1) l(1,2) show ?thesis by blast
qed

text \<open>
  C1, as the claim states it, fails: a reset of 0.5 exceeds the threshold, and the state of the
  one batch element carried from timestep 0 into timestep 1 is the new state times 0.5 (hidden 1
  and cell 0.5 for the unit of the examples), not zero.
\<close>

theorem reset_half_counterexample:
  "\<exists>h c os. 1 / 10 ^ 6 < entry2 (Tensor [1, 2] [1 / 2, 0]) 0 0 \<and>
     forward_steps (MultilayerLSTM_init (\<lambda>i. demo_gate) 1 1 True 1 False False) (Tensor [1, 2, 1] [1, 1])
       (Present (Tensor [1, 2] [1 / 2, 0])) 1 = Some (Present [Present (h, c)], os) \<and>
     row h 0 = [1] \<and> row c 0 = [1 / 2] \<and> row h 0 \<noteq> replicate 1 0 \<and> row c 0 \<noteq> replicate 1 0"
proof -
  have "forward_steps (MultilayerLSTM_init (\<lambda>i. demo_gate) 1 1 True 1 False False) (Tensor [1, 2, 1] [1, 1])
       (Present (Tensor [1, 2] [1 / 2, 0])) 1 =
       Some (Present [Present (Tensor [1, 1] [1], Tensor [1, 1] [1 / 2])], [Tensor [1, 1, 1, 1] [2]])"
    by (simp add: eval_defs)
  moreover have "1 / 10 ^ 6 < entry2 (Tensor [1, 2] [1 / 2, 0]) 0 0"
    by (simp add: entry2_def)
  moreover have "row (Tensor [1, 1] [1]) 0 = [1]" "row (Tensor [1, 1] [1 / 2]) 0 = [1 / 2]"
    by (simp_all add: row_def chunk_def)
  ultimately show ?thesis
    by (intro exI [of _ "Tensor [1, 1] [1]"] exI [of _ "Tensor [1, 1] [1 / 2]"] exI [of _ "[Tensor [1, 1, 1, 1] [2]]"]) simp
qed

text \<open>
  C1, amended: if \<^verbatim>\<open>reset[b, t]\<close> is exactly 1, the value the docstring names, then the hidden and
  cell tensors of every layer that timestep \<open>t\<close> hands to timestep \<open>t + 1\<close> have an all-zero row
  \<open>b\<close>. The output \<open>y\<close> emitted at timestep \<open>t\<close> is computed from the stack before the reset is
  applied: it is the same for every reset signal that agrees with this one before timestep \<open>t\<close>,
  whatever its values at timestep \<open>t\<close> are.
\<close>

theorem reset_one_zeroes_carried_state:
  assumes self: "self = MultilayerLSTM_init params I H bias Ln eli uph"
    and pos: "0 < Ln"
    and gates: "\<forall>l<Ln. gate_ok (lstm_cells (cell self) ! l)"
    and inp: "has_shape inp [B, L, I]"
    and r: "has_shape r [B, L]" and t: "t < L" and b: "b < B"
    and one: "entry2 r b t = 1"
  shows "\<exists>st os x hx y carried. step_at self inp (Present r) t st os x hx y carried \<and>
           length carried = Ln \<and>
           (\<forall>l<Ln. \<exists>h c. carried ! l = Present (h, c) \<and> has_shape h [B, H] \<and> has_shape c [B, H] \<and>
               row h b = replicate H 0 \<and> row c b = replicate H 0) \<and>
           (\<forall>r'. has_shape r' [B, L] \<and> (\<forall>t'<t. \<forall>b'<B. entry2 r' b' t' = entry2 r b' t') \<longrightarrow>
               (\<exists>carried'. step_at self inp (Present r') t st os x hx y carried'))"
proof -
  have c: "cell self = MultilayerLSTMCell_init params I H bias Ln eli uph"
    by (simp add: self init_fields)
  from pos gates have v: "valid_cell (cell self) I"
    unfolding c by (rule init_valid)
  have f: "layers (cell self) = Ln" "hidden_size (cell self) = H"
    by (simp_all add: c init_fields)
  have ro: "reset_ok B L (Present r)"
    using r by (simp add: reset_ok_def)
  from forward_content [OF v inp ro t] obtain st os x hx y carried where
    sa: "step_at self inp (Present r) t st os x hx y carried"
      "outs_ok (cell self) B hx" "outs_ok (cell self) B carried"
    by blast
  from sa(1) have ar: "apply_reset (Present r) t hx = Some carried"
    by (simp add: step_at_def)
  have g: "\<exists>b<B. 1 / 10 ^ 6 < entry2 r b t"
    using b one by (intro exI [of _ b]) simp
  from apply_reset_rows [OF sa(2) r t] ar g
  have sc: "\<forall>l<Ln. \<exists>h c h' c'. hx ! l = Present (h, c) \<and> carried ! l = Present (h', c') \<and>
                 (\<forall>b<B. row h' b = map (\<lambda>v. v * (1 - entry2 r b t)) (row h b) \<and>
                        row c' b = map (\<lambda>v. v * (1 - entry2 r b t)) (row c b))"
    unfolding f by auto
  have zero: "\<exists>h c. carried ! l = Present (h, c) \<and> has_shape h [B, H] \<and> has_shape c [B, H] \<and>
               row h b = replicate H 0 \<and> row c b = replicate H 0" if l: "l < Ln" for l
  proof -
    from sc l obtain h c h' c' where
      e: "hx ! l = Present (h, c)" "carried ! l = Present (h', c')"
         "\<forall>b<B. row h' b = map (\<lambda>v. v * (1 - entry2 r b t)) (row h b) \<and>
                        row c' b = map (\<lambda>v. v * (1 - entry2 r b t)) (row c b)"
      by blast
    from l have l': "l < layers (cell self)" by (simp add: f)
    from outs_okD [OF sa(2) l'] e(1) have s0: "has_shape h [B, H]" "has_shape c [B, H]"
      by (auto simp: f)
    from outs_okD [OF sa(3) l'] e(2) have s1: "has_shape h' [B, H]" "has_shape c' [B, H]"
      by (auto simp: f)
    from e(3) b one have "row h' b = map (\<lambda>v. 0) (row h b)" "row c' b = map (\<lambda>v. 0) (row c b)"
      by simp_all
    then have "row h' b = replicate H 0" "row c' b = replicate H 0"
      using length_row [OF s0(1) b] length_row [OF s0(2) b] by (simp_all add: map_replicate_const)
    with e(2) s1 show ?thesis by blast
  qed
  have other: "\<exists>carried'. step_at self inp (Present r') t st os x hx y carried'"
    if r': "has_shape r' [B, L]" and eq: "\<forall>t'<t. \<forall>b'<B. entry2 r' b' t' = entry2 r b' t'" for r'
  proof -
    from t have "t \<le> L" by simp
    from forward_steps_reset_cong [OF r r' this eq]
    have same: "forward_steps self inp (Present r') t = forward_steps self inp (Present r) t" .
    from apply_reset_rows [OF sa(2) r' t] obtain carried' where
      ar': "apply_reset (Present r') t hx = Some carried'"
      by blast
    from sa(1) have p: "forward_steps self inp (Present r) t = Some (st, os)" "select inp 1 t = Some x"
      "MultilayerLSTMCell_forward (cell self) x st = Some hx" "step_output hx = Some y"
      by (simp_all add: step_at_def)
    have "forward_body self inp (Present r') t (st, os) = Some (Present carried', os @ [y])"
      using p(2-4) ar' by (simp add: forward_body_def)
    then have "forward_steps self inp (Present r') (Suc t) = Some (Present carried', os @ [y])"
      using same p(1) by (simp add: forward_steps_Suc)
    with same p ar' have "step_at self inp (Present r') t st os x hx y carried'"
      by (simp add: step_at_def)
    then show ?thesis ..
  qed
  from sa(3) have "length carried = Ln"
    by (simp add: outs_ok_def f)
  with sa(1) zero other show ?thesis
    by blast
qed

theorem reset_one_zeroes_carried_state_witness:
  "\<exists>st os x hx y carried h c.
     step_at (MultilayerLSTM_init (\<lambda>i. demo_gate) 1 1 True 2 True True) (Tensor [2, 2, 1] [1, 2, 3, 4])
       (Present (Tensor [2, 2] [0, 0, 1, 0])) 0 st os x hx y carried \<and>
     carried ! 1 = Present (h, c) \<and> row h 1 = replicate 1 0 \<and> row c 1 = replicate 1 0"
proof -
  let ?r = "Tensor [2, 2] [0, 0, 1, 0]"
  have i: "has_shape (Tensor [2, 2, 1] [1, 2, 3, 4]) [2, 2, 1]"
    by (simp add: has_shape_def wf_tensor_def)
  have r: "has_shape ?r [2, 2]"
    by (simp add: has_shape_def wf_tensor_def)
  have p: "(0::nat) < 2" and q: "(1::nat) < 2" by simp_all
  have e: "entry2 ?r 1 0 = 1"
    by (simp add: entry2_def)
  from reset_one_zeroes_carried_state [where params = "\<lambda>i. demo_gate" and H = 1 and bias = True and eli = True
      and uph = True, OF refl p demo_lstm_gates i r p q e]
  obtain st os x hx y carried where
    s: "step_at (MultilayerLSTM_init (\<lambda>i. demo_gate) 1 1 True 2 True True) (Tensor [2, 2, 1] [1, 2, 3, 4])
          (Present ?r) 0 st os x hx y carried"
       "\<forall>l<2. \<exists>h c. carried ! l = Present (h, c) \<and> has_shape h [2, 1] \<and> has_shape c [2, 1] \<and>
               row h 1 = replicate 1 0 \<and> row c 1 = replicate 1 0"
    by blast
  from s(2) q obtain h c where "carried ! 1 = Present (h, c)" "row h 1 = replicate 1 0" "row c 1 = replicate 1 0"
    by blast
  with s(1) show ?thesis by blast
qed

lemma carried_rel_elem_state:
  assumes "carried_rel self B b st1 st2" and b: "b < B"
  shows "elem_state st1 b = elem_state st2 b"
proof (cases st1)
  case Absent
  with assms show ?thesis by (simp add: carried_rel_def)
next
  case (Present hx1)
  with assms(1) obtain hx2 where st2: "st2 = Present hx2"
    and ok: "stack_ok self B hx1" "stack_ok self B hx2"
    and rel: "\<forall>j<layers self. entry_rel B b (hx1 ! j) (hx2 ! j)"
    by (auto simp: carried_rel_def split: optional.splits)
  let ?p = "\<lambda>e. case e of Absent \<Rightarrow> Absent | Present (h, c) \<Rightarrow> Present (row h b, row c b)"
  have "map ?p hx1 = map ?p hx2"
  proof (rule nth_equalityI)
    show "length (map ?p hx1) = length (map ?p hx2)"
      using ok by (simp add: stack_ok_def)
  next
    fix j assume "j < length (map ?p hx1)"
    then have j: "j < layers self" using ok by (simp add: stack_ok_def)
    with rel have "entry_rel B b (hx1 ! j) (hx2 ! j)" by blast
    then have "?p (hx1 ! j) = ?p (hx2 ! j)"
      using b by (auto simp: entry_rel_def rows_eq_def split: optional.splits)
    with j ok show "map ?p hx1 ! j = map ?p hx2 ! j"
      by (simp add: stack_ok_def)
  qed
  with Present st2 show ?thesis
    by (simp add: elem_state_def)
qed

lemma batch_elem_entries:
  assumes r1: "has_shape r1 [B, L]" and r2: "has_shape r2 [B, L]" and b: "b < B" and t: "t < L"
    and eq: "batch_elem r1 b = batch_elem r2 b"
  shows "entry2 r1 b t = entry2 r2 b t"
proof -
  from b have "Suc b \<le> B" by simp
  then have le: "Suc b * L \<le> B * L" by (rule mult_le_mono1)
  have e: "entry2 r b t = batch_elem r b ! t" if "has_shape r [B, L]" for r
    using that le t by (simp add: entry2_def batch_elem2 row_def has_shapeD nth_chunk)
  from e [OF r1] e [OF r2] eq show ?thesis by simp
qed

lemma batch_elem_out:
  assumes out: "has_shape out [B, L, N, H]" and b: "b < B"
  shows "batch_elem out b = concat (map (\<lambda>t. chunk (N * H) (b * L + t) (elems out)) [0..<L])"
proof -
  let ?xs = "chunk (L * (N * H)) b (elems out)"
  from b have "Suc b \<le> B" by simp
  then have "Suc b * (L * (N * H)) \<le> B * (L * (N * H))" by (rule mult_le_mono1)
  with out have len: "length ?xs = L * (N * H)"
    by (simp add: length_chunk has_shapeD)
  have "concat (map (\<lambda>t. chunk (N * H) (b * L + t) (elems out)) [0..<L]) =
        concat (map (\<lambda>t. chunk (N * H) t ?xs) [0..<L])"
    by (intro arg_cong [where f = concat] map_cong refl) (simp add: chunk_chunk)
  also have "\<dots> = ?xs"
    using len by (rule concat_chunks)
  finally show ?thesis
    by (simp add: batch_elem4 [OF out])
qed

lemma upt_0_2: "[0..<2] = [0, Suc 0]"
  by (simp add: numeral_2_eq_2)

text \<open>
  C2, as the claim states it, fails: \<^verbatim>\<open>torch.any\<close> looks at the resets of all batch elements. Two
  runs give batch element 0 the same inputs and the same resets (1e-7 at timestep 0, below the
  threshold); element 1 has reset 1 at timestep 0 in the first run and 0 in the second. In the
  first run the state of element 0 is multiplied by \<open>1 - 1e-7\<close>, in the second it is not, and
  the outputs of element 0 at timestep 1 differ.
\<close>

theorem other_element_reset_counterexample:
  "\<exists>out1 out2.
     MultilayerLSTM_forward (MultilayerLSTM_init (\<lambda>i. demo_gate) 1 1 True 1 False False)
       (Tensor [2, 2, 1] [1, 2, 3, 4]) (Present (Tensor [2, 2] [1 / 10 ^ 7, 0, 1, 0])) = Some out1 \<and>
     MultilayerLSTM_forward (MultilayerLSTM_init (\<lambda>i. demo_gate) 1 1 True 1 False False)
       (Tensor [2, 2, 1] [1, 2, 3, 4]) (Present (Tensor [2, 2] [1 / 10 ^ 7, 0, 0, 0])) = Some out2 \<and>
     batch_elem (Tensor [2, 2] [1 / 10 ^ 7, 0, 1, 0]) 0 = batch_elem (Tensor [2, 2] [1 / 10 ^ 7, 0, 0, 0]) 0 \<and>
     batch_elem out1 0 \<noteq> batch_elem out2 0"
proof -
  have 1: "MultilayerLSTM_forward (MultilayerLSTM_init (\<lambda>i. demo_gate) 1 1 True 1 False False)
       (Tensor [2, 2, 1] [1, 2, 3, 4]) (Present (Tensor [2, 2] [1 / 10 ^ 7, 0, 1, 0])) =
       Some (Tensor [2, 2, 1, 1] [2, 8 - 4 / 10 ^ 7, 6, 8])"
    by (simp add: eval_defs upt_0_2)
  have 2: "MultilayerLSTM_forward (MultilayerLSTM_init (\<lambda>i. demo_gate) 1 1 True 1 False False)
       (Tensor [2, 2, 1] [1, 2, 3, 4]) (Present (Tensor [2, 2] [1 / 10 ^ 7, 0, 0, 0])) =
       Some (Tensor [2, 2, 1, 1] [2, 8, 6, 20])"
    by (simp add: eval_defs upt_0_2)
  have 3: "batch_elem (Tensor [2, 2] [1 / 10 ^ 7, 0, 1, 0]) 0 = batch_elem (Tensor [2, 2] [1 / 10 ^ 7, 0, 0, 0]) 0"
    by (simp add: batch_elem_def chunk_def)
  have 4: "batch_elem (Tensor [2, 2, 1, 1] [2, 8 - 4 / 10 ^ 7, 6, 8]) 0 \<noteq> batch_elem (Tensor [2, 2, 1, 1] [2, 8, 6, 20]) 0"
    by (simp add: batch_elem_def chunk_def)
  from 1 2 3 4 show ?thesis by blast
qed

text \<open>
  C2, amended: take two runs of \<^verbatim>\<open>MultilayerLSTM.forward\<close> on inputs of the same shape that agree on
  batch element \<open>b\<close>'s input rows and on its reset values (both resets absent, or both supplied),
  and let every reset value of element \<open>b\<close> be either exactly 0 or above 1e-6. Then the two runs
  return outputs that agree on element \<open>b\<close>, and before and after every timestep the outputs
  emitted so far and the carried state agree on element \<open>b\<close>.
\<close>

theorem batch_element_independence:
  assumes self: "self = MultilayerLSTM_init params I H bias Ln eli uph"
    and pos: "0 < Ln"
    and gates: "\<forall>l<Ln. gate_ok (lstm_cells (cell self) ! l)"
    and i1: "has_shape inp1 [B, L, I]" and i2: "has_shape inp2 [B, L, I]"
    and L: "0 < L" and b: "b < B"
    and ie: "batch_elem inp1 b = batch_elem inp2 b"
    and re: "reset1 = Absent \<and> reset2 = Absent \<or>
             (\<exists>r1 r2. reset1 = Present r1 \<and> reset2 = Present r2 \<and>
                has_shape r1 [B, L] \<and> has_shape r2 [B, L] \<and> batch_elem r1 b = batch_elem r2 b \<and>
                (\<forall>t<L. entry2 r1 b t = 0 \<or> 1 / 10 ^ 6 < entry2 r1 b t))"
  shows "\<exists>out1 out2. MultilayerLSTM_forward self inp1 reset1 = Some out1 \<and>
           MultilayerLSTM_forward self inp2 reset2 = Some out2 \<and>
           batch_elem out1 b = batch_elem out2 b \<and>
           (\<forall>n\<le>L. \<exists>st1 os1 st2 os2.
               forward_steps self inp1 reset1 n = Some (st1, os1) \<and>
               forward_steps self inp2 reset2 n = Some (st2, os2) \<and>
               elem_state st1 b = elem_state st2 b \<and> length os1 = n \<and> length os2 = n \<and>
               (\<forall>t<n. batch_elem (os1 ! t) b = batch_elem (os2 ! t) b))"
proof -
  have c: "cell self = MultilayerLSTMCell_init params I H bias Ln eli uph"
    by (simp add: self init_fields)
  from pos gates have v: "valid_cell (cell self) I"
    unfolding c by (rule init_valid)
  let ?N = "layers (cell self)" and ?H = "hidden_size (cell self)"
  have ie': "b < B \<longrightarrow> batch_elem inp1 b = batch_elem inp2 b"
    using ie by simp
  have rr: "\<forall>t<L. reset_rel B L b t reset1 reset2"
  proof (intro allI impI)
    fix t assume t: "t < L"
    from re show "reset_rel B L b t reset1 reset2"
    proof
      assume "reset1 = Absent \<and> reset2 = Absent"
      then show ?thesis by (simp add: reset_rel_def)
    next
      assume "\<exists>r1 r2. reset1 = Present r1 \<and> reset2 = Present r2 \<and>
                has_shape r1 [B, L] \<and> has_shape r2 [B, L] \<and> batch_elem r1 b = batch_elem r2 b \<and>
                (\<forall>t<L. entry2 r1 b t = 0 \<or> 1 / 10 ^ 6 < entry2 r1 b t)"
      then obtain r1 r2 where r: "reset1 = Present r1" "reset2 = Present r2"
        "has_shape r1 [B, L]" "has_shape r2 [B, L]" "batch_elem r1 b = batch_elem r2 b"
        "\<forall>t<L. entry2 r1 b t = 0 \<or> 1 / 10 ^ 6 < entry2 r1 b t"
        by blast
      from batch_elem_entries [OF r(3,4) b t r(5)] have "entry2 r1 b t = entry2 r2 b t" .
      moreover from r(6) t have "entry2 r1 b t = 0 \<or> 1 / 10 ^ 6 < entry2 r1 b t" by blast
      ultimately show ?thesis
        using r(1-4) unfolding reset_rel_def by simp
    qed
  qed
  have ro: "reset_ok B L reset1" "reset_ok B L reset2"
    using re by (auto simp: reset_ok_def)
  have steps: "\<exists>st1 os1 st2 os2.
               forward_steps self inp1 reset1 n = Some (st1, os1) \<and>
               forward_steps self inp2 reset2 n = Some (st2, os2) \<and>
               elem_state st1 b = elem_state st2 b \<and> length os1 = n \<and> length os2 = n \<and>
               (\<forall>t<n. batch_elem (os1 ! t) b = batch_elem (os2 ! t) b)" if n: "n \<le> L" for n
  proof -
    from forward_steps_rel [OF v i1 i2 ie' rr n] obtain s1 s2 where
      s: "forward_steps self inp1 reset1 n = Some s1" "forward_steps self inp2 reset2 n = Some s2"
         "drv_inv self B b n s1 s2"
      by blast
    obtain st1 os1 where s1: "s1 = (st1, os1)" by (cases s1)
    obtain st2 os2 where s2: "s2 = (st2, os2)" by (cases s2)
    from s(3) b have d: "length os1 = n" "length os2 = n"
      "\<forall>t<n. batch_elem (os1 ! t) b = batch_elem (os2 ! t) b"
      "carried_rel (cell self) B b st1 st2"
      by (simp_all add: drv_inv_def s1 s2)
    from carried_rel_elem_state [OF d(4) b] have "elem_state st1 b = elem_state st2 b" .
    with s(1,2) d(1-3) show ?thesis
      unfolding s1 s2 by blast
  qed
  from forward_result [OF v i1 ro(1) L] obtain st1 os1 out1 where
    f1: "forward_steps self inp1 reset1 L = Some (st1, os1)"
      "MultilayerLSTM_forward self inp1 reset1 = Some out1" "has_shape out1 [B, L, ?N, ?H]"
      "\<forall>b<B. \<forall>t<L. chunk (?N * ?H) (b * L + t) (elems out1) = chunk (?N * ?H) b (elems (os1 ! t))"
    by blast
  from forward_result [OF v i2 ro(2) L] obtain st2 os2 out2 where
    f2: "forward_steps self inp2 reset2 L = Some (st2, os2)"
      "MultilayerLSTM_forward self inp2 reset2 = Some out2" "has_shape out2 [B, L, ?N, ?H]"
      "\<forall>b<B. \<forall>t<L. chunk (?N * ?H) (b * L + t) (elems out2) = chunk (?N * ?H) b (elems (os2 ! t))"
    by blast
  from forward_steps_rel [OF v i1 i2 ie' rr order_refl] f1(1) f2(1)
  have inv: "drv_inv self B b L (st1, os1) (st2, os2)"
    by auto
  have "chunk (?N * ?H) (b * L + t) (elems out1) = chunk (?N * ?H) (b * L + t) (elems out2)" if t: "t < L" for t
  proof -
    from inv t b have sh: "has_shape (os1 ! t) [B, 1, ?N, ?H]" "has_shape (os2 ! t) [B, 1, ?N, ?H]"
      and eq: "batch_elem (os1 ! t) b = batch_elem (os2 ! t) b"
      by (simp_all add: drv_inv_def)
    from eq have "chunk (?N * ?H) b (elems (os1 ! t)) = chunk (?N * ?H) b (elems (os2 ! t))"
      by (simp add: batch_elem4 [OF sh(1)] batch_elem4 [OF sh(2)])
    with f1(4) f2(4) b t show ?thesis by simp
  qed
  then have "batch_elem out1 b = batch_elem out2 b"
    unfolding batch_elem_out [OF f1(3) b] batch_elem_out [OF f2(3) b]
    by (intro arg_cong [where f = concat] map_cong refl) simp
  with f1(2) f2(2) steps show ?thesis
    by blast
qed

theorem batch_element_independence_witness:
  "\<exists>out1 out2.
     MultilayerLSTM_forward (MultilayerLSTM_init (\<lambda>i. demo_gate) 1 1 True 2 True True)
       (Tensor [2, 2, 1] [1, 2, 3, 4]) (Present (Tensor [2, 2] [0, 1, 1, 0])) = Some out1 \<and>
     MultilayerLSTM_forward (MultilayerLSTM_init (\<lambda>i. demo_gate) 1 1 True 2 True True)
       (Tensor [2, 2, 1] [1, 2, 5, 6]) (Present (Tensor [2, 2] [0, 1, 0, 0])) = Some out2 \<and>
     batch_elem out1 0 = batch_elem out2 0"
proof -
  let ?r1 = "Tensor [2, 2] [0, 1, 1, 0]" and ?r2 = "Tensor [2, 2] [0, 1, 0, 0]"
  have i1: "has_shape (Tensor [2, 2, 1] [1, 2, 3, 4]) [2, 2, 1]"
    and i2: "has_shape (Tensor [2, 2, 1] [1, 2, 5, 6]) [2, 2, 1]"
    by (simp_all add: has_shape_def wf_tensor_def)
  have p: "(0::nat) < 2" by simp
  have ie: "batch_elem (Tensor [2, 2, 1] [1, 2, 3, 4]) 0 = batch_elem (Tensor [2, 2, 1] [1, 2, 5, 6]) 0"
    by (simp add: batch_elem_def chunk_def)
  have vals: "\<forall>t<2. entry2 ?r1 0 t = 0 \<or> 1 / 10 ^ 6 < entry2 ?r1 0 t"
  proof (intro allI impI)
    fix t :: nat assume "t < 2"
    then have "t = 0 \<or> t = 1" by auto
    then show "entry2 ?r1 0 t = 0 \<or> 1 / 10 ^ 6 < entry2 ?r1 0 t"
      by (auto simp: entry2_def)
  qed
  have re: "Present ?r1 = Absent \<and> Present ?r2 = Absent \<or>
             (\<exists>r1 r2. Present ?r1 = Present r1 \<and> Present ?r2 = Present r2 \<and>
                has_shape r1 [2, 2] \<and> has_shape r2 [2, 2] \<and> batch_elem r1 0 = batch_elem r2 0 \<and>
                (\<forall>t<2. entry2 r1 0 t = 0 \<or> 1 / 10 ^ 6 < entry2 r1 0 t))"
    using vals by (intro disjI2 exI [of _ ?r1] exI [of _ ?r2])
      (simp add: has_shape_def wf_tensor_def batch_elem_def chunk_def)
  from batch_element_independence [where params = "\<lambda>i. demo_gate" and H = 1 and bias = True and eli = True
      and uph = True, OF refl p demo_lstm_gates i1 i2 p p ie re]
  show ?thesis by blast
qed

lemma single_layer_forward:
  assumes "layers self = 1" "\<not> every_layer_input self" "\<not> use_previous_higher self"
    and "lstm_cells self = [unit]"
    and "st = Absent \<or> (\<exists>e. st = Present [e])"
  shows "MultilayerLSTMCell_forward self x st =
           LSTMCell_forward unit x (carried_pair st) \<bind> (\<lambda>out. Some [Present out])"
  using assms
  by (auto simp: MultilayerLSTMCell_forward_def cell_body_def layer_input_def getitem_def carried_pair_def
           split: Option.bind_split)

lemma single_cell_steps_Suc:
  "single_cell_steps unit inp (Suc n) =
     (case single_cell_steps unit inp n of None \<Rightarrow> None | Some s \<Rightarrow> single_cell_body unit inp n s)"
  unfolding single_cell_steps_def by (rule for_each_Suc)

lemma one_layer_output:
  assumes ok: "outs_ok self B [Present (h, c)]" and n: "layers self = 1"
    and y: "step_output [Present (h, c)] = Some y" and b: "b < B"
  shows "has_shape y [B, 1, 1, hidden_size self] \<and> batch_elem y b = row h b"
proof -
  from n have l: "0 < layers self" by simp
  from step_output_rows [OF ok l] y have sh: "has_shape y [B, 1, layers self, hidden_size self]"
    by auto
  from step_output_layer [OF ok y l b]
  have "chunk (hidden_size self) 0 (chunk (layers self * hidden_size self) b (elems y)) = row h b"
    by auto
  moreover have "chunk (hidden_size self) 0 (chunk (1 * hidden_size self) b (elems y)) =
                 chunk (hidden_size self) (b * 1 + 0) (elems y)"
    by (rule chunk_chunk) simp
  ultimately show ?thesis
    using sh by (simp add: batch_elem4 [OF sh] n)
qed

lemma one_layer_step:
  assumes v: "valid_cell (cell self) I" and n1: "layers (cell self) = 1"
    and fl: "\<not> every_layer_input (cell self)" "\<not> use_previous_higher (cell self)"
    and u: "lstm_cells (cell self) = [unit]"
    and i: "has_shape inp [B, L, I]" and r: "reset_ok B L reset" and t: "t < L"
  shows "\<exists>st os x y carried h c. step_at self inp reset t st os x [Present (h, c)] y carried \<and>
           length os = t \<and> (st = Absent \<or> (\<exists>e. st = Present [e])) \<and>
           LSTMCell_forward unit x (carried_pair st) = Some (h, c) \<and>
           has_shape h [B, hidden_size (cell self)] \<and> has_shape c [B, hidden_size (cell self)] \<and>
           has_shape y [B, 1, 1, hidden_size (cell self)] \<and>
           (\<forall>b<B. batch_elem y b = row h b)"
proof -
  from step_exists [OF v i r t] obtain st os x hx y carried where
    sa: "step_at self inp reset t st os x hx y carried" "length os = t"
      "carried_ok (cell self) B st" "outs_ok (cell self) B hx"
      "has_shape y [B, 1, layers (cell self), hidden_size (cell self)]"
    by blast
  from sa(3) n1 have st: "st = Absent \<or> (\<exists>e. st = Present [e])"
    by (cases st) (auto simp: carried_ok_def stack_ok_def length_Suc_conv)
  from sa(1) have run: "MultilayerLSTMCell_forward (cell self) x st = Some hx"
    and so: "step_output hx = Some y"
    by (simp_all add: step_at_def)
  from run single_layer_forward [OF n1 fl u st, of x] obtain out where
    out: "LSTMCell_forward unit x (carried_pair st) = Some out" "hx = [Present out]"
    by (auto simp: bind_eq_Some_conv)
  obtain h c where hc: "out = (h, c)" by (cases out)
  from sa(4) have shp: "has_shape h [B, hidden_size (cell self)]" "has_shape c [B, hidden_size (cell self)]"
    unfolding out(2) hc by (auto simp: outs_ok_def present_ok_def n1)
  have "\<forall>b<B. batch_elem y b = row h b"
    using one_layer_output [OF sa(4) [unfolded out(2) hc] n1 so [unfolded out(2) hc]] by blast
  with sa(1,2) st out(1) shp sa(5) show ?thesis
    unfolding out(2) hc n1 by blast
qed

lemma one_layer_steps:
  assumes v: "valid_cell (cell self) I" and n1: "layers (cell self) = 1"
    and fl: "\<not> every_layer_input (cell self)" "\<not> use_previous_higher (cell self)"
    and u: "lstm_cells (cell self) = [unit]"
    and i: "has_shape inp [B, L, I]" and n: "n \<le> L"
  shows "\<exists>hc hs st os. single_cell_steps unit inp n = Some (hc, hs) \<and>
           forward_steps self inp Absent n = Some (st, os) \<and> carried_pair st = hc \<and>
           length hs = n \<and> length os = n \<and>
           (\<forall>t<n. has_shape (hs ! t) [B, hidden_size (cell self)] \<and>
                  has_shape (os ! t) [B, 1, 1, hidden_size (cell self)] \<and>
                  (\<forall>b<B. batch_elem (os ! t) b = row (hs ! t) b))"
  using n
proof (induction n)
  case 0
  show ?case
    by (simp add: single_cell_steps_def forward_steps_def carried_pair_def)
next
  case (Suc n)
  then obtain hc hs st os where
    ih: "single_cell_steps unit inp n = Some (hc, hs)" "forward_steps self inp Absent n = Some (st, os)"
        "carried_pair st = hc" "length hs = n" "length os = n"
        "\<forall>t<n. has_shape (hs ! t) [B, hidden_size (cell self)] \<and>
                  has_shape (os ! t) [B, 1, 1, hidden_size (cell self)] \<and>
                  (\<forall>b<B. batch_elem (os ! t) b = row (hs ! t) b)"
    by auto
  from Suc.prems have t: "n < L" by simp
  have r: "reset_ok B L Absent" by (simp add: reset_ok_def)
  from one_layer_step [OF v n1 fl u i r t] obtain st' os' x y carried h c where
    s: "step_at self inp Absent n st' os' x [Present (h, c)] y carried"
       "LSTMCell_forward unit x (carried_pair st') = Some (h, c)"
       "has_shape h [B, hidden_size (cell self)]" "\<forall>b<B. batch_elem y b = row h b"
       "has_shape y [B, 1, 1, hidden_size (cell self)]"
    by blast
  from s(1) ih(2) have same: "st' = st" "os' = os"
    by (simp_all add: step_at_def)
  from s(1) have sel: "select inp 1 n = Some x"
    and nxt: "forward_steps self inp Absent (Suc n) = Some (Present carried, os @ [y])"
    and car: "carried = [Present (h, c)]"
    by (simp_all add: step_at_def same apply_reset_def)
  have "single_cell_body unit inp n (hc, hs) = Some (Present (h, c), hs @ [h])"
    using sel s(2) by (simp add: single_cell_body_def same ih(3))
  then have one: "single_cell_steps unit inp (Suc n) = Some (Present (h, c), hs @ [h])"
    using ih(1) by (simp add: single_cell_steps_Suc)
  have "\<forall>t<Suc n. has_shape ((hs @ [h]) ! t) [B, hidden_size (cell self)] \<and>
                  has_shape ((os @ [y]) ! t) [B, 1, 1, hidden_size (cell self)] \<and>
                  (\<forall>b<B. batch_elem ((os @ [y]) ! t) b = row ((hs @ [h]) ! t) b)"
    using ih(4-6) s(3,4,5) by (auto simp: nth_append less_Suc_eq)
  with one nxt ih(4,5) show ?case
    by (simp add: car carried_pair_def)
qed

text \<open>
  C6: with one layer and both flags off, \<^verbatim>\<open>MultilayerLSTM.forward\<close> without a reset returns the
  hidden outputs of the single standard LSTM cell stepped over the sequence: the block of the
  output at batch element \<open>b\<close> and timestep \<open>t\<close> is row \<open>b\<close> of the cell's hidden output at
  timestep \<open>t\<close>. With or without a reset, at every timestep the stack the cell returns is the one
  pair that the unit returns from the timestep's input and the carried (h, c) pair, and the
  emitted output is that pair's hidden tensor.
\<close>

theorem one_layer_is_single_cell:
  assumes self: "self = MultilayerLSTM_init params I H bias 1 False False"
    and gate: "gate_ok (lstm_cells (cell self) ! 0)"
    and inp: "has_shape inp [B, L, I]" and L: "0 < L"
  shows "(\<exists>hs out. single_cell_run (lstm_cells (cell self) ! 0) inp = Some hs \<and> length hs = L \<and>
            MultilayerLSTM_forward self inp Absent = Some out \<and> has_shape out [B, L, 1, H] \<and>
            (\<forall>t<L. has_shape (hs ! t) [B, H] \<and>
                   (\<forall>b<B. chunk H (b * L + t) (elems out) = row (hs ! t) b))) \<and>
         (\<forall>reset t. reset_ok B L reset \<and> t < L \<longrightarrow>
            (\<exists>st os x y carried h c. step_at self inp reset t st os x [Present (h, c)] y carried \<and>
                LSTMCell_forward (lstm_cells (cell self) ! 0) x (carried_pair st) = Some (h, c) \<and>
                (\<forall>b<B. batch_elem y b = row h b)))"
proof -
  let ?unit = "lstm_cells (cell self) ! 0"
  have c: "cell self = MultilayerLSTMCell_init params I H bias 1 False False"
    by (simp add: self init_fields)
  have f: "layers (cell self) = 1" "hidden_size (cell self) = H"
    "\<not> every_layer_input (cell self)" "\<not> use_previous_higher (cell self)"
    by (simp_all add: c init_fields)
  have "length (lstm_cells (cell self)) = 1"
    by (simp add: c init_fields)
  then have u: "lstm_cells (cell self) = [?unit]"
    by (cases "lstm_cells (cell self)") simp_all
  from gate have "\<forall>l<1. gate_ok (lstm_cells (MultilayerLSTMCell_init params I H bias 1 False False) ! l)"
    by (simp add: c)
  then have v: "valid_cell (cell self) I"
    unfolding c by (intro init_valid) simp_all
  have ro: "reset_ok B L Absent" by (simp add: reset_ok_def)
  from one_layer_steps [OF v f(1,3,4) u inp order_refl] obtain hc hs st os where
    st: "single_cell_steps ?unit inp L = Some (hc, hs)" "forward_steps self inp Absent L = Some (st, os)"
        "length hs = L"
        "\<forall>t<L. has_shape (hs ! t) [B, H] \<and> has_shape (os ! t) [B, 1, 1, H] \<and>
                  (\<forall>b<B. batch_elem (os ! t) b = row (hs ! t) b)"
    unfolding f by blast
  from forward_result [OF v inp ro L] st(2) obtain out where
    out: "MultilayerLSTM_forward self inp Absent = Some out" "has_shape out [B, L, 1, H]"
      "\<forall>b<B. \<forall>t<L. chunk (1 * H) (b * L + t) (elems out) = chunk (1 * H) b (elems (os ! t))"
    unfolding f by auto
  have "tensor_size inp 1 = Some L"
    using inp by (simp add: tensor_size_def getitem_def has_shapeD)
  then have run: "single_cell_run ?unit inp = Some hs"
    using st(1) by (simp add: single_cell_run_def)
  have blocks: "has_shape (hs ! t) [B, H] \<and> (\<forall>b<B. chunk H (b * L + t) (elems out) = row (hs ! t) b)"
    if t: "t < L" for t
  proof -
    from st(4) t have s: "has_shape (hs ! t) [B, H]" "has_shape (os ! t) [B, 1, 1, H]"
      "\<forall>b<B. batch_elem (os ! t) b = row (hs ! t) b"
      by simp_all
    have "chunk H (b * L + t) (elems out) = row (hs ! t) b" if b: "b < B" for b
    proof -
      from out(3) b t have "chunk H (b * L + t) (elems out) = chunk H b (elems (os ! t))"
        by simp
      also have "\<dots> = batch_elem (os ! t) b"
        by (simp add: batch_elem4 [OF s(2)])
      also have "\<dots> = row (hs ! t) b"
        using s(3) b by simp
      finally show ?thesis .
    qed
    with s(1) show ?thesis by blast
  qed
  have steps: "\<exists>st os x y carried h c. step_at self inp reset t st os x [Present (h, c)] y carried \<and>
                LSTMCell_forward ?unit x (carried_pair st) = Some (h, c) \<and>
                (\<forall>b<B. batch_elem y b = row h b)"
    if "reset_ok B L reset \<and> t < L" for reset t
  proof -
    from that have r: "reset_ok B L reset" and t: "t < L" by simp_all
    from one_layer_step [OF v f(1,3,4) u inp r t] show ?thesis
      by blast
  qed
  from run st(3) out(1,2) blocks steps show ?thesis
    by blast
qed

theorem one_layer_is_single_cell_witness:
  "\<exists>hs out.
     single_cell_run (lstm_cells (cell (MultilayerLSTM_init (\<lambda>i. demo_gate) 1 1 True 1 False False)) ! 0)
       (Tensor [2, 2, 1] [1, 2, 3, 4]) = Some hs \<and> length hs = 2 \<and>
     MultilayerLSTM_forward (MultilayerLSTM_init (\<lambda>i. demo_gate) 1 1 True 1 False False)
       (Tensor [2, 2, 1] [1, 2, 3, 4]) Absent = Some out \<and>
     chunk 1 (1 * 2 + 0) (elems out) = row (hs ! 0) 1"
proof -
  have i: "has_shape (Tensor [2, 2, 1] [1, 2, 3, 4]) [2, 2, 1]"
    by (simp add: has_shape_def wf_tensor_def)
  have p: "(0::nat) < 2" and q: "(1::nat) < 2" by simp_all
  have g: "gate_ok (lstm_cells (cell (MultilayerLSTM_init (\<lambda>i. demo_gate) 1 1 True 1 False False)) ! 0)"
    using demo_lstm_gates [of 1 1 1 True False False] by simp
  from one_layer_is_single_cell [OF refl g i p] obtain hs out where
    o: "single_cell_run (lstm_cells (cell (MultilayerLSTM_init (\<lambda>i. demo_gate) 1 1 True 1 False False)) ! 0)
          (Tensor [2, 2, 1] [1, 2, 3, 4]) = Some hs" "length hs = 2"
       "MultilayerLSTM_forward (MultilayerLSTM_init (\<lambda>i. demo_gate) 1 1 True 1 False False)
          (Tensor [2, 2, 1] [1, 2, 3, 4]) Absent = Some out"
       "\<forall>t<2. has_shape (hs ! t) [2, 1] \<and> (\<forall>b<2. chunk 1 (b * 2 + t) (elems out) = row (hs ! t) b)"
    by blast
  from o(4) p have "\<forall>b<2. chunk 1 (b * 2 + 0) (elems out) = row (hs ! 0) b" by blast
  with q have "chunk 1 (1 * 2 + 0) (elems out) = row (hs ! 0) 1" by blast
  with o(1-3) show ?thesis by blast
qed

end
